theory Spec2Isabelle
  imports Main "HOL-Library.Char_ord" "HOL-Library.List_Lexorder"
begin

text \<open>
  A model of the package \<^verbatim>\<open>rcm\<close> of \<^verbatim>\<open>zemld/config-manager\<close>: the store
  \<^verbatim>\<open>RedisConfigManager\<close>, its method \<^verbatim>\<open>LoadConfig\<close>, its five typed getters and
  their variants with a default.

  The methods are short; what they compute is decided by the functions of the Go
  standard library they call. Those functions are modelled here as well:
  \<^verbatim>\<open>strconv.Atoi\<close>, \<^verbatim>\<open>strconv.ParseBool\<close>, \<^verbatim>\<open>time.ParseDuration\<close>,
  \<^verbatim>\<open>json.Unmarshal\<close> into a \<^verbatim>\<open>map[string]any\<close>, and \<^verbatim>\<open>fmt.Sprintf("%v", v)\<close>.
  Three computations on \<^verbatim>\<open>float64\<close> are parameters of the model and nothing is
  assumed about them: \<^verbatim>\<open>strconv.ParseFloat\<close> as used by \<^verbatim>\<open>GetFloat\<close>
  (\<open>parseFloat\<close>), the fractional part of a duration (\<open>frac\<close>), and the shortest
  digits of a \<^verbatim>\<open>float64\<close> that is not an integer below \<open>2^53\<close> (\<open>shortest\<close>).
\<close>

section \<open>Errors\<close>

text \<open>
  Every function of package \<^verbatim>\<open>rcm\<close> reports failure through Go's \<^verbatim>\<open>error\<close>
  interface. The model keeps one constructor for each error the code can produce:
  the two wrapped errors of \<^verbatim>\<open>LoadConfig\<close>, the \<^verbatim>\<open>key %s not found\<close> error of
  the getters, and the errors that \<^verbatim>\<open>strconv\<close> and \<^verbatim>\<open>time\<close> hand back and
  that the getters pass on unchanged.
\<close>

datatype num_err = ErrSyntax | ErrRange

datatype duration_err = InvalidDuration | MissingUnit | UnknownUnit string

datatype redis_err = RedisNil | RedisFailure string

datatype json_err = SyntaxError | UnmarshalTypeError

datatype error =
    FailedToGetConfig redis_err
  | FailedToUnmarshalConfig json_err
  | KeyNotFound string
  | NumError string string num_err
  | DurationError duration_err string

fun is_NotFoundError :: "error \<Rightarrow> bool" where
  "is_NotFoundError (KeyNotFound k) = True"
| "is_NotFoundError e = False"

fun is_ParseError :: "error \<Rightarrow> bool" where
  "is_ParseError (NumError f s e) = True"
| "is_ParseError (DurationError e s) = True"
| "is_ParseError e = False"

fun is_RetrievalError :: "error \<Rightarrow> bool" where
  "is_RetrievalError (FailedToGetConfig e) = True"
| "is_RetrievalError e = False"

fun is_DecodeError :: "error \<Rightarrow> bool" where
  "is_DecodeError (FailedToUnmarshalConfig e) = True"
| "is_DecodeError e = False"

section \<open>The text parsers of the Go standard library\<close>

text \<open>
  The getters delegate to \<^verbatim>\<open>strconv.Atoi\<close>, \<^verbatim>\<open>strconv.ParseFloat\<close>,
  \<^verbatim>\<open>strconv.ParseBool\<close> and \<^verbatim>\<open>time.ParseDuration\<close>. These are not part of
  the repository; they are modelled here after the Go standard library, byte by byte
  (a Go string is a byte sequence, a \<^typ>\<open>string\<close> here is a list of 8-bit characters).
\<close>

definition is_digit :: "char \<Rightarrow> bool" where
  "is_digit c \<longleftrightarrow> CHR ''0'' \<le> c \<and> c \<le> CHR ''9''"

definition digit_val :: "char \<Rightarrow> nat" where
  "digit_val c = of_char c - 48"

subsection \<open>strconv.ParseBool\<close>

definition ParseBool :: "string \<Rightarrow> error + bool" where
  "ParseBool str =
     (if str \<in> set [''1'', ''t'', ''T'', ''true'', ''TRUE'', ''True''] then Inr True
      else if str \<in> set [''0'', ''f'', ''F'', ''false'', ''FALSE'', ''False''] then Inr False
      else Inl (NumError ''ParseBool'' str ErrSyntax))"

subsection \<open>strconv.Atoi\<close>

text \<open>
  \<^verbatim>\<open>int\<close> is taken to be 64 bits wide (\<^verbatim>\<open>strconv.IntSize = 64\<close>). \<open>ParseUint\<close> is
  \<^verbatim>\<open>strconv.ParseUint(s, 10, 64)\<close>: the accumulator is a \<^verbatim>\<open>uint64\<close>, and the two
  overflow tests of the loop are written out. A range error is reported as soon as the
  accumulator overflows, before the remaining bytes are looked at.
\<close>

fun ParseUint_loop :: "nat \<Rightarrow> string \<Rightarrow> num_err + nat" where
  "ParseUint_loop n [] = Inr n"
| "ParseUint_loop n (c # s) =
     (if \<not> is_digit c then Inl ErrSyntax
      else if n \<ge> (2 ^ 64 - 1) div 10 + 1 then Inl ErrRange
      else if n * 10 + digit_val c > 2 ^ 64 - 1 then Inl ErrRange
      else ParseUint_loop (n * 10 + digit_val c) s)"

definition ParseUint :: "string \<Rightarrow> num_err + nat" where
  "ParseUint s = (if s = [] then Inl ErrSyntax else ParseUint_loop 0 s)"

text \<open>
  \<^verbatim>\<open>strconv.ParseInt(s, 10, 0)\<close>. When \<open>ParseUint\<close> reports a range error it returns
  the largest \<^verbatim>\<open>uint64\<close>, which then fails the cutoff test.
\<close>

definition ParseInt :: "string \<Rightarrow> num_err + int" where
  "ParseInt s =
     (case s of
        [] \<Rightarrow> Inl ErrSyntax
      | c # r \<Rightarrow>
          (let neg = (c = CHR ''-'');
               s1 = (if c = CHR ''+'' \<or> c = CHR ''-'' then r else s)
           in case ParseUint s1 of
                Inl ErrSyntax \<Rightarrow> Inl ErrSyntax
              | Inl ErrRange \<Rightarrow> Inl ErrRange
              | Inr un \<Rightarrow>
                  if \<not> neg \<and> un \<ge> 2 ^ 63 then Inl ErrRange
                  else if neg \<and> un > 2 ^ 63 then Inl ErrRange
                  else Inr (if neg then - int un else int un)))"

text \<open>The fast path of \<^verbatim>\<open>Atoi\<close>: \<^verbatim>\<open>ch -= '0'; if ch > 9 { syntax error }\<close> on bytes.\<close>

fun Atoi_fast :: "nat \<Rightarrow> string \<Rightarrow> nat option" where
  "Atoi_fast n [] = Some n"
| "Atoi_fast n (ch # s) =
     (if is_digit ch then Atoi_fast (n * 10 + digit_val ch) s else None)"

definition Atoi :: "string \<Rightarrow> error + int" where
  "Atoi s =
     (case s of
        [] \<Rightarrow> (case ParseInt s of Inl e \<Rightarrow> Inl (NumError ''Atoi'' s e) | Inr i \<Rightarrow> Inr i)
      | c # r \<Rightarrow>
          if length s < 19 then
            (let signed = (c = CHR ''-'' \<or> c = CHR ''+'');
                 s1 = (if signed then r else s)
             in if signed \<and> length s1 < 1 then Inl (NumError ''Atoi'' s ErrSyntax)
                else case Atoi_fast 0 s1 of
                       None \<Rightarrow> Inl (NumError ''Atoi'' s ErrSyntax)
                     | Some n \<Rightarrow> Inr (if c = CHR ''-'' then - int n else int n))
          else (case ParseInt s of Inl e \<Rightarrow> Inl (NumError ''Atoi'' s e) | Inr i \<Rightarrow> Inr i))"

text \<open>
  A plain decimal string: an optional sign followed by one or more decimal digits.
\<close>

definition plain_decimal :: "string \<Rightarrow> bool" where
  "plain_decimal s =
     (case s of
        [] \<Rightarrow> False
      | c # r \<Rightarrow>
          if c = CHR ''-'' \<or> c = CHR ''+'' then r \<noteq> [] \<and> list_all is_digit r
          else list_all is_digit s)"

subsection \<open>time.ParseDuration\<close>

text \<open>
  A \<^verbatim>\<open>time.Duration\<close> is an \<^verbatim>\<open>int64\<close> count of nanoseconds. \<open>unitMap\<close> is the table
  of the \<^verbatim>\<open>time\<close> package; the two spellings of the micro sign are the UTF-8 bytes
  of U+00B5 and U+03BC.
\<close>

definition Nanosecond :: nat where "Nanosecond = 1"
definition Microsecond :: nat where "Microsecond = 1000 * Nanosecond"
definition Millisecond :: nat where "Millisecond = 1000 * Microsecond"
definition Second :: nat where "Second = 1000 * Millisecond"
definition Minute :: nat where "Minute = 60 * Second"
definition Hour :: nat where "Hour = 60 * Minute"

definition unitMap :: "string \<Rightarrow> nat option" where
  "unitMap u =
     (if u = ''ns'' then Some Nanosecond
      else if u = ''us'' then Some Microsecond
      else if u = [char_of (0xC2::nat), char_of (0xB5::nat), CHR ''s''] then Some Microsecond
      else if u = [char_of (0xCE::nat), char_of (0xBC::nat), CHR ''s''] then Some Microsecond
      else if u = ''ms'' then Some Millisecond
      else if u = ''s'' then Some Second
      else if u = ''m'' then Some Minute
      else if u = ''h'' then Some Hour
      else None)"

text \<open>
  \<open>leadingInt\<close> consumes the leading digits; it fails when the value passes \<open>2^63\<close>.
  It returns the value and the rest of the string.
\<close>

fun leadingInt :: "nat \<Rightarrow> string \<Rightarrow> (nat \<times> string) option" where
  "leadingInt x [] = Some (x, [])"
| "leadingInt x (c # s) =
     (if \<not> is_digit c then Some (x, c # s)
      else if x > 2 ^ 63 div 10 then None
      else if x * 10 + digit_val c > 2 ^ 63 then None
      else leadingInt (x * 10 + digit_val c) s)"

text \<open>
  \<open>leadingFraction\<close> consumes the leading digits of a fraction. On overflow it stops
  accumulating and keeps consuming. It returns the accumulated value, the number of
  digits accumulated (\<^verbatim>\<open>scale\<close> is ten to that power) and the rest of the string.
\<close>

fun leadingFraction :: "nat \<Rightarrow> nat \<Rightarrow> bool \<Rightarrow> string \<Rightarrow> nat \<times> nat \<times> string" where
  "leadingFraction x k overflow [] = (x, k, [])"
| "leadingFraction x k overflow (c # s) =
     (if \<not> is_digit c then (x, k, c # s)
      else if overflow then leadingFraction x k overflow s
      else if x > (2 ^ 63 - 1) div 10 then leadingFraction x k True s
      else if x * 10 + digit_val c > 2 ^ 63 then leadingFraction x k True s
      else leadingFraction (x * 10 + digit_val c) (Suc k) overflow s)"

definition unit_char :: "char \<Rightarrow> bool" where
  "unit_char c \<longleftrightarrow> \<not> (c = CHR ''.'' \<or> is_digit c)"

text \<open>
  The body of the loop of \<^verbatim>\<open>ParseDuration\<close> reads one
  \<^verbatim>\<open>[0-9]*(\.[0-9]*)?[a-z]+\<close> group and returns its value in nanoseconds and
  the rest of the string. The fractional part is computed by Go in \<^verbatim>\<open>float64\<close>:
  \<^verbatim>\<open>uint64(float64(f) * (float64(unit) / scale))\<close>. That one expression is the
  parameter \<open>frac\<close>, applied to \<open>f\<close>, the unit and the number of fraction digits; it is
  only evaluated when \<open>f > 0\<close>. The sum is a \<^verbatim>\<open>uint64\<close> and wraps at \<open>2^64\<close>.
\<close>

definition ParseDuration_group ::
  "(nat \<Rightarrow> nat \<Rightarrow> nat \<Rightarrow> nat) \<Rightarrow> string \<Rightarrow> duration_err + (nat \<times> string)" where
  "ParseDuration_group frac s =
     (case s of
        [] \<Rightarrow> Inl InvalidDuration
      | c # r \<Rightarrow>
          if \<not> (c = CHR ''.'' \<or> is_digit c) then Inl InvalidDuration
          else case leadingInt 0 s of
            None \<Rightarrow> Inl InvalidDuration
          | Some (v, s1) \<Rightarrow>
              (let pre = (length s \<noteq> length s1);
                   has_dot = (case s1 of c1 # r1 \<Rightarrow> c1 = CHR ''.'' | [] \<Rightarrow> False);
                   (f, k, s2) = (if has_dot then leadingFraction 0 0 False (tl s1)
                                 else (0, 0, s1));
                   post = (has_dot \<and> length (tl s1) \<noteq> length s2)
               in if \<not> pre \<and> \<not> post then Inl InvalidDuration
                  else
                    (let u = takeWhile unit_char s2; s3 = dropWhile unit_char s2
                     in if u = [] then Inl MissingUnit
                        else case unitMap u of
                          None \<Rightarrow> Inl (UnknownUnit u)
                        | Some unit \<Rightarrow>
                            if v > 2 ^ 63 div unit then Inl InvalidDuration
                            else if f > 0 then
                              (let v2 = (v * unit + frac f unit k) mod 2 ^ 64
                               in if v2 > 2 ^ 63 then Inl InvalidDuration
                                  else Inr (v2, s3))
                            else Inr (v * unit, s3))))"

text \<open>
  The loop itself: \<open>d\<close> is the \<^verbatim>\<open>uint64\<close> accumulator, and \<^verbatim>\<open>d += v\<close> wraps.
\<close>

function ParseDuration_loop ::
  "(nat \<Rightarrow> nat \<Rightarrow> nat \<Rightarrow> nat) \<Rightarrow> nat \<Rightarrow> string \<Rightarrow> duration_err + nat" where
  "ParseDuration_loop frac d s =
     (if s = [] then Inr d
      else case ParseDuration_group frac s of
        Inl e \<Rightarrow> Inl e
      | Inr (v, s') \<Rightarrow>
          (let d1 = (d + v) mod 2 ^ 64
           in if d1 > 2 ^ 63 then Inl InvalidDuration
              else ParseDuration_loop frac d1 s'))"
  by pat_completeness auto

lemma leadingInt_length: "leadingInt x s = Some (v, r) \<Longrightarrow> length r \<le> length s"
  by (induction x s rule: leadingInt.induct) (auto split: if_splits)

lemma leadingFraction_length:
  "leadingFraction x k b s = (f, k', r) \<Longrightarrow> length r \<le> length s"
  by (induction x k b s rule: leadingFraction.induct) (auto split: if_splits)

lemma dropWhile_shorter: "takeWhile P xs \<noteq> [] \<Longrightarrow> length (dropWhile P xs) < length xs"
  by (cases xs) (auto simp: le_imp_less_Suc length_dropWhile_le split: if_splits)

lemma ParseDuration_group_length:
  assumes "ParseDuration_group frac s = Inr (v, s')"
  shows "length s' < length s"
proof -
  from assms obtain c r where s: "s = c # r"
    by (cases s) (auto simp: ParseDuration_group_def)
  from assms s obtain v0 s1 where li: "leadingInt 0 s = Some (v0, s1)"
    by (auto simp: ParseDuration_group_def split: if_splits option.splits)
  define has_dot where "has_dot = (case s1 of c1 # r1 \<Rightarrow> c1 = CHR ''.'' | [] \<Rightarrow> False)"
  obtain f k s2 where fr:
    "(if has_dot then leadingFraction 0 0 False (tl s1) else (0, 0, s1)) = (f, k, s2)"
    by (metis prod_cases3)
  have l1: "length s1 \<le> length s"
    using li by (rule leadingInt_length)
  have l2: "length s2 \<le> length s1"
  proof (cases has_dot)
    case True
    with fr have "length s2 \<le> length (tl s1)"
      by (auto dest: leadingFraction_length)
    then show ?thesis by simp
  next
    case False
    with fr show ?thesis by simp
  qed
  from assms s li fr have "takeWhile unit_char s2 \<noteq> [] \<and> s' = dropWhile unit_char s2"
    by (auto simp: ParseDuration_group_def Let_def has_dot_def
             split: if_splits option.splits)
  then have "length s' < length s2"
    by (simp add: dropWhile_shorter)
  with l1 l2 show ?thesis by simp
qed

termination ParseDuration_loop
  by (relation "measure (\<lambda>(frac, d, s). length s)")
     (auto dest: ParseDuration_group_length)

declare ParseDuration_loop.simps [simp del]

text \<open>
  \<^verbatim>\<open>ParseDuration\<close>: the optional sign, the special case \<^verbatim>\<open>"0"\<close>, the loop, and the
  conversion of the \<^verbatim>\<open>uint64\<close> to a signed \<^verbatim>\<open>Duration\<close> (\<open>2^63\<close> negated is the
  smallest \<^verbatim>\<open>int64\<close>).
\<close>

definition ParseDuration :: "(nat \<Rightarrow> nat \<Rightarrow> nat \<Rightarrow> nat) \<Rightarrow> string \<Rightarrow> error + int" where
  "ParseDuration frac orig =
     (let neg = (case orig of c # r \<Rightarrow> c = CHR ''-'' | [] \<Rightarrow> False);
          s = (case orig of c # r \<Rightarrow> if c = CHR ''-'' \<or> c = CHR ''+'' then r else orig
                          | [] \<Rightarrow> orig)
      in if s = ''0'' then Inr 0
         else if s = [] then Inl (DurationError InvalidDuration orig)
         else case ParseDuration_loop frac 0 s of
           Inl e \<Rightarrow> Inl (DurationError e orig)
         | Inr d \<Rightarrow>
             if neg then Inr (- int d)
             else if d > 2 ^ 63 - 1 then Inl (DurationError InvalidDuration orig)
             else Inr (int d))"

section \<open>The store\<close>

text \<open>
  \<^verbatim>\<open>RedisConfigManager\<close> keeps the snapshot in the field \<^verbatim>\<open>config\<close>, a Go
  \<^verbatim>\<open>map[string]string\<close>, next to the service name and the time of the last load.
  The remaining fields (the Redis client, the context and its cancel function, the wait
  group and the mutex) carry no configuration data. A getter reads the map under the
  read lock, and \<^verbatim>\<open>LoadConfig\<close> writes the map and the time under the write lock
  after it has fetched and decoded the payload, so the effect of each method on this
  record is one atomic step. An instant (\<^verbatim>\<open>time.Time\<close>) is an integer, \<open>0\<close> for
  the zero time.
\<close>

record RedisConfigManager =
  serviceName :: string
  config :: "string \<rightharpoonup> string"
  updatedAt :: int

text \<open>
  \<^verbatim>\<open>NewRedisConfigManager\<close> pings the server and exits the process when the ping
  fails; \<open>None\<close> stands for that exit.
\<close>

definition NewRedisConfigManager :: "redis_err option \<Rightarrow> string \<Rightarrow> RedisConfigManager option" where
  "NewRedisConfigManager ping name =
     (case ping of
        Some err \<Rightarrow> None
      | None \<Rightarrow> Some \<lparr>serviceName = name, config = Map.empty, updatedAt = 0\<rparr>)"

subsection \<open>Getters\<close>

definition GetInt :: "RedisConfigManager \<Rightarrow> string \<Rightarrow> error + int" where
  "GetInt rcm key =
     (case config rcm key of
        None \<Rightarrow> Inl (KeyNotFound key)
      | Some v \<Rightarrow> Atoi v)"

text \<open>
  \<^verbatim>\<open>strconv.ParseFloat(value, 64)\<close> is the parameter \<open>parseFloat\<close>; \<open>'f\<close> stands for
  \<^verbatim>\<open>float64\<close>. Its error is always a \<^verbatim>\<open>*strconv.NumError\<close>.
\<close>

definition GetFloat ::
  "(string \<Rightarrow> num_err + 'f) \<Rightarrow> RedisConfigManager \<Rightarrow> string \<Rightarrow> error + 'f" where
  "GetFloat parseFloat rcm key =
     (case config rcm key of
        None \<Rightarrow> Inl (KeyNotFound key)
      | Some v \<Rightarrow>
          (case parseFloat v of
             Inl e \<Rightarrow> Inl (NumError ''ParseFloat'' v e)
           | Inr f \<Rightarrow> Inr f))"

definition GetString :: "RedisConfigManager \<Rightarrow> string \<Rightarrow> error + string" where
  "GetString rcm key =
     (case config rcm key of
        None \<Rightarrow> Inl (KeyNotFound key)
      | Some v \<Rightarrow> Inr v)"

definition GetBool :: "RedisConfigManager \<Rightarrow> string \<Rightarrow> error + bool" where
  "GetBool rcm key =
     (case config rcm key of
        None \<Rightarrow> Inl (KeyNotFound key)
      | Some v \<Rightarrow> ParseBool v)"

definition GetDuration ::
  "(nat \<Rightarrow> nat \<Rightarrow> nat \<Rightarrow> nat) \<Rightarrow> RedisConfigManager \<Rightarrow> string \<Rightarrow> error + int" where
  "GetDuration frac rcm key =
     (case config rcm key of
        None \<Rightarrow> Inl (KeyNotFound key)
      | Some v \<Rightarrow> ParseDuration frac v)"

subsection \<open>Getters with a default\<close>

definition GetIntWithDefault :: "RedisConfigManager \<Rightarrow> string \<Rightarrow> int \<Rightarrow> int" where
  "GetIntWithDefault rcm key defaultValue =
     (case GetInt rcm key of Inl err \<Rightarrow> defaultValue | Inr v \<Rightarrow> v)"

definition GetFloatWithDefault ::
  "(string \<Rightarrow> num_err + 'f) \<Rightarrow> RedisConfigManager \<Rightarrow> string \<Rightarrow> 'f \<Rightarrow> 'f" where
  "GetFloatWithDefault parseFloat rcm key defaultValue =
     (case GetFloat parseFloat rcm key of Inl err \<Rightarrow> defaultValue | Inr v \<Rightarrow> v)"

definition GetStringWithDefault :: "RedisConfigManager \<Rightarrow> string \<Rightarrow> string \<Rightarrow> string" where
  "GetStringWithDefault rcm key defaultValue =
     (case GetString rcm key of Inl err \<Rightarrow> defaultValue | Inr v \<Rightarrow> v)"

definition GetBoolWithDefault :: "RedisConfigManager \<Rightarrow> string \<Rightarrow> bool \<Rightarrow> bool" where
  "GetBoolWithDefault rcm key defaultValue =
     (case GetBool rcm key of Inl err \<Rightarrow> defaultValue | Inr v \<Rightarrow> v)"

definition GetDurationWithDefault ::
  "(nat \<Rightarrow> nat \<Rightarrow> nat \<Rightarrow> nat) \<Rightarrow> RedisConfigManager \<Rightarrow> string \<Rightarrow> int \<Rightarrow> int" where
  "GetDurationWithDefault frac rcm key defaultValue =
     (case GetDuration frac rcm key of Inl err \<Rightarrow> defaultValue | Inr v \<Rightarrow> v)"

section \<open>Decoding the payload\<close>

text \<open>
  \<^verbatim>\<open>LoadConfig\<close> decodes the payload with \<^verbatim>\<open>json.Unmarshal\<close> into a
  \<^verbatim>\<open>map[string]any\<close> and renders every value with \<^verbatim>\<open>fmt.Sprintf("%v", value)\<close>.
  Both belong to the Go standard library. They are modelled here as Go runs them: a
  check of the whole text against the JSON grammar, the decoding of the checked text
  into Go values, and the \<^verbatim>\<open>%v\<close> rendering of those values.
\<close>

subsection \<open>JSON text\<close>

definition quote :: char where "quote = CHR 0x22"
definition backslash :: char where "backslash = CHR 0x5C"

definition is_space :: "char \<Rightarrow> bool" where
  "is_space c \<longleftrightarrow> c = CHR '' '' \<or> c = CHR 0x09 \<or> c = CHR 0x0D \<or> c = CHR 0x0A"

definition is_hex :: "char \<Rightarrow> bool" where
  "is_hex c \<longleftrightarrow>
     is_digit c \<or> (CHR ''a'' \<le> c \<and> c \<le> CHR ''f'') \<or> (CHR ''A'' \<le> c \<and> c \<le> CHR ''F'')"

definition hex_val :: "char \<Rightarrow> nat" where
  "hex_val c =
     (if is_digit c then of_char c - 48
      else if CHR ''a'' \<le> c \<and> c \<le> CHR ''f'' then of_char c - 87
      else of_char c - 55)"

definition digits_val :: "string \<Rightarrow> nat" where
  "digits_val ds = foldl (\<lambda>n c. n * 10 + digit_val c) 0 ds"

datatype token =
    TLBrace | TRBrace | TLBracket | TRBracket | TColon | TComma
  | TString string | TNumber bool nat int | TTrue | TFalse | TNull

text \<open>
  \<open>scan_string\<close> reads a string literal after its opening quote, as the scanner of
  \<^verbatim>\<open>encoding/json\<close> does: control characters are rejected, a backslash must be
  followed by one of \<^verbatim>\<open>" \ / b f n r t\<close> or by \<^verbatim>\<open>u\<close> and four hexadecimal digits.
  It returns the text between the quotes, still escaped, and the rest of the input.
\<close>

definition is_escape :: "char \<Rightarrow> bool" where
  "is_escape e \<longleftrightarrow>
     e \<in> set [CHR ''b'', CHR ''f'', CHR ''n'', CHR ''r'', CHR ''t'', backslash, CHR ''/'', quote]"

fun scan_string :: "string \<Rightarrow> (string \<times> string) option" where
  "scan_string [] = None"
| "scan_string (c # s) =
     (if c = quote then Some ([], s)
      else if c = backslash then
        (case s of
           [] \<Rightarrow> None
         | e # s1 \<Rightarrow>
             if is_escape e
             then map_option (\<lambda>(raw, r). (c # e # raw, r)) (scan_string s1)
             else if e = CHR ''u'' then
               (case s1 of
                  h1 # h2 # h3 # h4 # s2 \<Rightarrow>
                    if is_hex h1 \<and> is_hex h2 \<and> is_hex h3 \<and> is_hex h4
                    then map_option (\<lambda>(raw, r). (c # e # h1 # h2 # h3 # h4 # raw, r))
                           (scan_string s2)
                    else None
                | _ \<Rightarrow> None)
             else None)
      else if of_char c < (0x20 :: nat) then None
      else map_option (\<lambda>(raw, r). (c # raw, r)) (scan_string s))"

text \<open>
  \<open>scan_number\<close> reads a number literal:
  \<^verbatim>\<open>-?(0|[1-9][0-9]*)(\.[0-9]+)?([eE][+-]?[0-9]+)?\<close>. The token keeps the sign, the
  digits of the integer and fraction parts as one natural number, and the power of ten
  that scales it: the literal denotes \<open>\<plusminus> mant * 10 ^ exp10\<close>.
\<close>

definition scan_number :: "string \<Rightarrow> (token \<times> string) option" where
  "scan_number s =
     (let neg = (case s of c # r \<Rightarrow> c = CHR ''-'' | [] \<Rightarrow> False);
          s0 = (if neg then tl s else s)
      in case s0 of
           [] \<Rightarrow> None
         | c # s1 \<Rightarrow>
             if \<not> is_digit c then None
             else
               (let idigs = (if c = CHR ''0'' then [c] else c # takeWhile is_digit s1);
                    s2 = (if c = CHR ''0'' then s1 else dropWhile is_digit s1);
                    has_frac = (case s2 of d # r \<Rightarrow> d = CHR ''.'' | [] \<Rightarrow> False);
                    fdigs = (if has_frac then takeWhile is_digit (tl s2) else []);
                    s3 = (if has_frac then dropWhile is_digit (tl s2) else s2);
                    has_exp = (case s3 of d # r \<Rightarrow> d = CHR ''e'' \<or> d = CHR ''E''
                                        | [] \<Rightarrow> False);
                    s4 = (if has_exp then tl s3 else s3);
                    eneg = (has_exp \<and> (case s4 of d # r \<Rightarrow> d = CHR ''-'' | [] \<Rightarrow> False));
                    esigned = (has_exp \<and>
                      (case s4 of d # r \<Rightarrow> d = CHR ''-'' \<or> d = CHR ''+'' | [] \<Rightarrow> False));
                    s5 = (if esigned then tl s4 else s4);
                    edigs = (if has_exp then takeWhile is_digit s5 else []);
                    s6 = (if has_exp then dropWhile is_digit s5 else s3)
                in if has_frac \<and> fdigs = [] then None
                   else if has_exp \<and> edigs = [] then None
                   else Some (TNumber neg (digits_val (idigs @ fdigs))
                                ((if eneg then - int (digits_val edigs)
                                  else int (digits_val edigs)) - int (length fdigs)),
                              s6)))"

subsection \<open>Unquoting a string literal\<close>

text \<open>
  \<open>utf8_len\<close> is the length of the well-formed UTF-8 sequence at the head of a string, or
  \<open>0\<close> when the head is malformed (\<^verbatim>\<open>utf8.DecodeRune\<close> then yields
  \<^verbatim>\<open>RuneError\<close> with size 1).
\<close>

definition byte_at :: "string \<Rightarrow> nat \<Rightarrow> nat" where
  "byte_at s i = (if i < length s then of_char (s ! i) else 0)"

definition utf8_len :: "string \<Rightarrow> nat" where
  "utf8_len s =
     (let b0 = byte_at s 0; b1 = byte_at s 1; b2 = byte_at s 2; b3 = byte_at s 3;
          c1 = (0x80 \<le> b1 \<and> b1 \<le> 0xBF);
          c2 = (0x80 \<le> b2 \<and> b2 \<le> 0xBF);
          c3 = (0x80 \<le> b3 \<and> b3 \<le> 0xBF)
      in if s = [] then 0
         else if b0 < 0x80 then 1
         else if 0xC2 \<le> b0 \<and> b0 \<le> 0xDF then (if c1 then 2 else 0)
         else if b0 = 0xE0 then (if 0xA0 \<le> b1 \<and> b1 \<le> 0xBF \<and> c2 then 3 else 0)
         else if (0xE1 \<le> b0 \<and> b0 \<le> 0xEC) \<or> b0 = 0xEE \<or> b0 = 0xEF
           then (if c1 \<and> c2 then 3 else 0)
         else if b0 = 0xED then (if 0x80 \<le> b1 \<and> b1 \<le> 0x9F \<and> c2 then 3 else 0)
         else if b0 = 0xF0 then (if 0x90 \<le> b1 \<and> b1 \<le> 0xBF \<and> c2 \<and> c3 then 4 else 0)
         else if 0xF1 \<le> b0 \<and> b0 \<le> 0xF3 then (if c1 \<and> c2 \<and> c3 then 4 else 0)
         else if b0 = 0xF4 then (if 0x80 \<le> b1 \<and> b1 \<le> 0x8F \<and> c2 \<and> c3 then 4 else 0)
         else 0)"

definition RuneError :: nat where "RuneError = 0xFFFD"

text \<open>\<^verbatim>\<open>utf8.EncodeRune\<close>: surrogates and values past U+10FFFF encode as U+FFFD.\<close>

definition EncodeRune :: "nat \<Rightarrow> string" where
  "EncodeRune r0 =
     (let r = (if (0xD800 \<le> r0 \<and> r0 < 0xE000) \<or> r0 > 0x10FFFF then RuneError else r0)
      in if r < 0x80 then [char_of r]
         else if r < 0x800 then [char_of (0xC0 + r div 64), char_of (0x80 + r mod 64)]
         else if r < 0x10000 then
           [char_of (0xE0 + r div 4096), char_of (0x80 + r div 64 mod 64),
            char_of (0x80 + r mod 64)]
         else
           [char_of (0xF0 + r div 262144), char_of (0x80 + r div 4096 mod 64),
            char_of (0x80 + r div 64 mod 64), char_of (0x80 + r mod 64)])"

text \<open>\<open>getu4\<close> decodes \<^verbatim>\<open>\uXXXX\<close> at the head of a string.\<close>

definition getu4 :: "string \<Rightarrow> nat option" where
  "getu4 s =
     (if length s < 6 \<or> s ! 0 \<noteq> backslash \<or> s ! 1 \<noteq> CHR ''u'' then None
      else if \<not> list_all is_hex (take 4 (drop 2 s)) then None
      else Some (foldl (\<lambda>n c. n * 16 + hex_val c) 0 (take 4 (drop 2 s))))"

text \<open>\<^verbatim>\<open>utf16.DecodeRune\<close> on a first half and what \<open>getu4\<close> found next.\<close>

definition utf16_DecodeRune :: "nat \<Rightarrow> nat option \<Rightarrow> nat" where
  "utf16_DecodeRune r1 next =
     (case next of
        None \<Rightarrow> RuneError
      | Some r2 \<Rightarrow>
          if 0xD800 \<le> r1 \<and> r1 < 0xDC00 \<and> 0xDC00 \<le> r2 \<and> r2 < 0xE000
          then (r1 - 0xD800) * 1024 + (r2 - 0xDC00) + 0x10000
          else RuneError)"

text \<open>
  \<open>unquote\<close> is \<^verbatim>\<open>unquoteBytes\<close> on the text between the quotes: escapes are
  replaced, \<^verbatim>\<open>\u\<close> escapes are encoded in UTF-8 (a lone surrogate becomes U+FFFD),
  and every malformed byte becomes U+FFFD. \<open>None\<close> is its \<^verbatim>\<open>ok = false\<close>.
\<close>

function unquote :: "string \<Rightarrow> string option" where
  "unquote [] = Some []"
| "unquote (c # s) =
     (if c = backslash then
        (case s of
           [] \<Rightarrow> None
         | e # s1 \<Rightarrow>
             if e = quote \<or> e = backslash \<or> e = CHR ''/'' \<or> e = CHR 0x27
               then map_option ((#) e) (unquote s1)
             else if e = CHR ''b'' then map_option ((#) (CHR 0x08)) (unquote s1)
             else if e = CHR ''f'' then map_option ((#) (CHR 0x0C)) (unquote s1)
             else if e = CHR ''n'' then map_option ((#) (CHR 0x0A)) (unquote s1)
             else if e = CHR ''r'' then map_option ((#) (CHR 0x0D)) (unquote s1)
             else if e = CHR ''t'' then map_option ((#) (CHR 0x09)) (unquote s1)
             else if e = CHR ''u'' then
               (case getu4 (c # s) of
                  None \<Rightarrow> None
                | Some rr \<Rightarrow>
                    if 0xD800 \<le> rr \<and> rr < 0xE000 then
                      (if utf16_DecodeRune rr (getu4 (drop 6 (c # s))) \<noteq> RuneError
                       then map_option
                              ((@) (EncodeRune (utf16_DecodeRune rr (getu4 (drop 6 (c # s))))))
                              (unquote (drop 12 (c # s)))
                       else map_option ((@) (EncodeRune RuneError)) (unquote (drop 6 (c # s))))
                    else map_option ((@) (EncodeRune rr)) (unquote (drop 6 (c # s))))
             else None)
      else if c = quote \<or> of_char c < (0x20 :: nat) then None
      else if of_char c < (0x80 :: nat) then map_option ((#) c) (unquote s)
      else if utf8_len (c # s) = 0 then map_option ((@) (EncodeRune RuneError)) (unquote s)
      else map_option ((@) (take (utf8_len (c # s)) (c # s)))
             (unquote (drop (utf8_len (c # s)) (c # s))))"
  by pat_completeness auto
termination
  by (relation "measure length") auto

declare unquote.simps [simp del]

subsection \<open>Tokens\<close>

lemma scan_string_length: "scan_string s = Some (raw, r) \<Longrightarrow> length r \<le> length s"
proof (induction s arbitrary: raw r rule: scan_string.induct)
  case 1
  then show ?case by simp
next
  case (2 c s)
  show ?case
  proof (cases "c = quote")
    case True
    with "2.prems" show ?thesis by simp
  next
    case nq: False
    show ?thesis
    proof (cases "c = backslash")
      case bs: True
      from "2.prems" nq bs obtain e s1 where s: "s = e # s1"
        by (cases s) auto
      show ?thesis
      proof (cases "is_escape e")
        case True
        with "2.prems" nq bs s obtain raw' where "scan_string s1 = Some (raw', r)"
          by auto
        with "2.IH"(1) [OF nq bs s True] have "length r \<le> length s1" .
        with s show ?thesis by simp
      next
        case ne: False
        with "2.prems" nq bs s have u: "e = CHR ''u''"
          by (auto split: if_splits)
        from "2.prems" nq bs s ne u obtain h1 h2 h3 h4 s2 where
          s1: "s1 = h1 # h2 # h3 # h4 # s2"
          by (auto split: list.splits)
        from "2.prems" nq bs s ne u s1 have
          hx: "is_hex h1 \<and> is_hex h2 \<and> is_hex h3 \<and> is_hex h4"
          by (auto split: if_splits)
        with "2.prems" nq bs s ne u s1 obtain raw' where "scan_string s2 = Some (raw', r)"
          by auto
        then have "length r \<le> length s2"
          using "2.IH"(2) nq bs s ne u s1 hx by blast
        with s s1 show ?thesis by simp
      qed
    next
      case nb: False
      with "2.prems" nq have nc: "\<not> of_char c < (0x20 :: nat)"
        by (auto split: if_splits)
      with "2.prems" nq nb obtain raw' where "scan_string s = Some (raw', r)"
        by auto
      with "2.IH"(3) [OF nq nb nc] have "length r \<le> length s" .
      then show ?thesis by simp
    qed
  qed
qed

lemma scan_number_length: "scan_number s = Some (t, r) \<Longrightarrow> length r < length s"
proof -
  assume a: "scan_number s = Some (t, r)"
  have dw: "\<And>xs. length (dropWhile is_digit xs) \<le> length (xs :: string)"
    by (rule length_dropWhile_le)
  have tl_dw: "\<And>xs. length (dropWhile is_digit (tl xs)) \<le> length (xs :: string)"
    by (metis diff_le_self dw le_trans length_tl)
  define s0 where "s0 = (if (case s of c # r \<Rightarrow> c = CHR ''-'' | [] \<Rightarrow> False) then tl s else s)"
  from a obtain c s1 where s0: "s0 = c # s1"
    by (cases s0) (auto simp: scan_number_def s0_def Let_def)
  define s2 where "s2 = (if c = CHR ''0'' then s1 else dropWhile is_digit s1)"
  define s3 where "s3 = (if (case s2 of d # r \<Rightarrow> d = CHR ''.'' | [] \<Rightarrow> False)
                         then dropWhile is_digit (tl s2) else s2)"
  define s4 where "s4 = tl s3"
  define s5 where "s5 = (if (case s4 of d # r \<Rightarrow> d = CHR ''-'' \<or> d = CHR ''+'' | [] \<Rightarrow> False)
                         then tl s4 else s4)"
  have l0: "length s0 \<le> length s" by (simp add: s0_def)
  have l2: "length s2 \<le> length s1" by (simp add: s2_def dw)
  have l3: "length s3 \<le> length s2" by (simp add: s3_def tl_dw)
  have l5: "length s5 \<le> length s3" by (simp add: s5_def s4_def)
  have l6: "length (dropWhile is_digit s5) \<le> length s3"
    using dw [of s5] l5 by simp
  from a s0 have "r = s3 \<or> r = dropWhile is_digit s5"
    by (auto simp: scan_number_def Let_def s0_def [symmetric] s2_def [symmetric]
                   s3_def s4_def s5_def split: if_splits)
  with l3 l6 have "length r \<le> length s2" by auto
  with l2 l0 s0 show ?thesis by simp
qed

text \<open>
  \<open>next_token\<close> reads the token that starts with the character \<open>c\<close>; \<open>lex\<close> cuts the
  text into tokens, skipping the four white-space characters of JSON. \<open>None\<close> is a
  syntax error.
\<close>

definition next_token :: "char \<Rightarrow> string \<Rightarrow> (token \<times> string) option" where
  "next_token c s =
     (if c = CHR ''{'' then Some (TLBrace, s)
      else if c = CHR ''}'' then Some (TRBrace, s)
      else if c = CHR ''['' then Some (TLBracket, s)
      else if c = CHR '']'' then Some (TRBracket, s)
      else if c = CHR '':'' then Some (TColon, s)
      else if c = CHR '','' then Some (TComma, s)
      else if c = quote then
        (case scan_string s of
           None \<Rightarrow> None
         | Some (raw, r) \<Rightarrow>
             (case unquote raw of
                None \<Rightarrow> None
              | Some str \<Rightarrow> Some (TString str, r)))
      else if c = CHR ''-'' \<or> is_digit c then scan_number (c # s)
      else if c = CHR ''t'' then
        (if take 3 s = ''rue'' then Some (TTrue, drop 3 s) else None)
      else if c = CHR ''f'' then
        (if take 4 s = ''alse'' then Some (TFalse, drop 4 s) else None)
      else if c = CHR ''n'' then
        (if take 3 s = ''ull'' then Some (TNull, drop 3 s) else None)
      else None)"

lemma next_token_length:
  assumes "next_token c s = Some (t, r)"
  shows "length r \<le> length s"
proof -
  consider (punct) "r = s" | (str) raw where "scan_string s = Some (raw, r)"
    | (num) "scan_number (c # s) = Some (t, r)" | (lit) n where "r = drop n s"
    using assms unfolding next_token_def
    by (simp split: if_splits option.splits prod.splits) blast+
  then show ?thesis
  proof cases
    case punct
    then show ?thesis by simp
  next
    case str
    then show ?thesis by (rule scan_string_length)
  next
    case num
    then have "length r < length (c # s)" by (rule scan_number_length)
    then show ?thesis by simp
  next
    case lit
    then show ?thesis by simp
  qed
qed

function lex :: "string \<Rightarrow> token list option" where
  "lex [] = Some []"
| "lex (c # s) =
     (if is_space c then lex s
      else case next_token c s of
             None \<Rightarrow> None
           | Some (t, r) \<Rightarrow> map_option ((#) t) (lex r))"
  by pat_completeness auto
termination
  by (relation "measure length") (auto dest: next_token_length simp: le_imp_less_Suc)

declare lex.simps [simp del]

subsection \<open>Values\<close>

text \<open>
  The grammar of values is checked by a machine with a stack, as in the scanner of
  \<^verbatim>\<open>encoding/json\<close>: one frame for every array or object that is still open. The
  scanner refuses to nest deeper than \<open>maxNestingDepth\<close>.
\<close>

datatype json =
    JNull | JBool bool | JNumber bool nat int | JString string
  | JArray "json list" | JObject "(string \<times> json) list"

datatype frame =
    ArrayFrame "json list"
  | ObjectFrame "(string \<times> json) list" "string option"

datatype pstate =
    BeginValue | BeginValueOrEmpty | BeginStringOrEmpty | BeginString
  | ObjectKey | EndValue | EndTop json

definition maxNestingDepth :: nat where "maxNestingDepth = 10000"

fun complete :: "json \<Rightarrow> frame list \<Rightarrow> (pstate \<times> frame list) option" where
  "complete v [] = Some (EndTop v, [])"
| "complete v (ArrayFrame es # st) = Some (EndValue, ArrayFrame (es @ [v]) # st)"
| "complete v (ObjectFrame ms (Some k) # st) =
     Some (EndValue, ObjectFrame (ms @ [(k, v)]) None # st)"
| "complete v (ObjectFrame ms None # st) = None"

fun begin_value :: "frame list \<Rightarrow> token \<Rightarrow> (pstate \<times> frame list) option" where
  "begin_value st TLBrace =
     (if length st \<ge> maxNestingDepth then None
      else Some (BeginStringOrEmpty, ObjectFrame [] None # st))"
| "begin_value st TLBracket =
     (if length st \<ge> maxNestingDepth then None
      else Some (BeginValueOrEmpty, ArrayFrame [] # st))"
| "begin_value st (TString s) = complete (JString s) st"
| "begin_value st (TNumber neg mant exp10) = complete (JNumber neg mant exp10) st"
| "begin_value st TTrue = complete (JBool True) st"
| "begin_value st TFalse = complete (JBool False) st"
| "begin_value st TNull = complete JNull st"
| "begin_value st t = None"

fun begin_string :: "frame list \<Rightarrow> token \<Rightarrow> (pstate \<times> frame list) option" where
  "begin_string (ObjectFrame ms None # st) (TString k) =
     Some (ObjectKey, ObjectFrame ms (Some k) # st)"
| "begin_string st t = None"

fun end_value :: "frame list \<Rightarrow> token \<Rightarrow> (pstate \<times> frame list) option" where
  "end_value (ArrayFrame es # st) TComma = Some (BeginValue, ArrayFrame es # st)"
| "end_value (ArrayFrame es # st) TRBracket = complete (JArray es) st"
| "end_value (ObjectFrame ms None # st) TComma = Some (BeginString, ObjectFrame ms None # st)"
| "end_value (ObjectFrame ms None # st) TRBrace = complete (JObject ms) st"
| "end_value st t = None"

fun parse_step :: "pstate \<Rightarrow> frame list \<Rightarrow> token \<Rightarrow> (pstate \<times> frame list) option" where
  "parse_step BeginValue st t = begin_value st t"
| "parse_step BeginValueOrEmpty st t =
     (if t = TRBracket then end_value st t else begin_value st t)"
| "parse_step BeginStringOrEmpty st t =
     (if t = TRBrace then end_value st t else begin_string st t)"
| "parse_step BeginString st t = begin_string st t"
| "parse_step ObjectKey st t = (if t = TColon then Some (BeginValue, st) else None)"
| "parse_step EndValue st t = end_value st t"
| "parse_step (EndTop v) st t = None"

fun parse :: "pstate \<Rightarrow> frame list \<Rightarrow> token list \<Rightarrow> json option" where
  "parse ps st (t # ts) =
     (case parse_step ps st t of
        None \<Rightarrow> None
      | Some (ps', st') \<Rightarrow> parse ps' st' ts)"
| "parse (EndTop v) st [] = Some v"
| "parse ps st [] = None"

definition checkValid :: "string \<Rightarrow> json option" where
  "checkValid data =
     (case lex data of
        None \<Rightarrow> None
      | Some ts \<Rightarrow> parse BeginValue [] ts)"

subsection \<open>Go values\<close>

text \<open>
  Decoding into \<^verbatim>\<open>any\<close> yields \<^verbatim>\<open>nil\<close>, a \<^verbatim>\<open>bool\<close>, a \<^verbatim>\<open>float64\<close>, a
  \<^verbatim>\<open>string\<close>, a \<^verbatim>\<open>[]any\<close> or a \<^verbatim>\<open>map[string]any\<close>. A Go map is kept as
  an association list with its keys in increasing byte order and without duplicates,
  the order in which \<^verbatim>\<open>fmt\<close> prints it. A \<^verbatim>\<open>float64\<close> is kept as the decimal
  literal it was read from: \<open>VFloat64 neg mant exp10\<close> is the \<^verbatim>\<open>float64\<close> nearest to
  \<open>\<plusminus> mant * 10 ^ exp10\<close>.
\<close>

datatype any =
    VNil | VBool bool | VFloat64 bool nat int | VString string
  | VSlice "any list" | VMap "(string \<times> any) list"

text \<open>\<open>map_set m k v\<close> is the assignment \<^verbatim>\<open>m[k] = v\<close>.\<close>

fun map_set :: "(string \<times> 'a) list \<Rightarrow> string \<Rightarrow> 'a \<Rightarrow> (string \<times> 'a) list" where
  "map_set [] k v = [(k, v)]"
| "map_set ((k', v') # m) k v =
     (if k = k' then (k, v) # m
      else if k < k' then (k, v) # (k', v') # m
      else (k', v') # map_set m k v)"

definition make_map :: "(string \<times> 'a) list \<Rightarrow> (string \<times> 'a) list" where
  "make_map members = foldl (\<lambda>m (k, v). map_set m k v) [] members"

fun toAny :: "json \<Rightarrow> any" where
  "toAny JNull = VNil"
| "toAny (JBool b) = VBool b"
| "toAny (JNumber neg mant exp10) = VFloat64 neg mant exp10"
| "toAny (JString s) = VString s"
| "toAny (JArray vs) = VSlice (map toAny vs)"
| "toAny (JObject ms) = VMap (make_map (map (\<lambda>(k, v). (k, toAny v)) ms))"

text \<open>
  \<^verbatim>\<open>strconv.ParseFloat\<close> rounds to the nearest \<^verbatim>\<open>float64\<close> and reports a range
  error when the result would be infinite, that is when the literal is at least half a
  unit in the last place above the largest \<^verbatim>\<open>float64\<close>:
  \<open>mant * 10 ^ exp10 \<ge> (2 ^ 54 - 1) * 2 ^ 970\<close>.
\<close>

definition float64_overflow :: "nat \<Rightarrow> int \<Rightarrow> bool" where
  "float64_overflow mant exp10 =
     (if exp10 \<ge> 0 then mant * 10 ^ nat exp10 \<ge> (2 ^ 54 - 1) * 2 ^ 970
      else mant \<ge> (2 ^ 54 - 1) * 2 ^ 970 * 10 ^ nat (- exp10))"

fun has_range_error :: "json \<Rightarrow> bool" where
  "has_range_error JNull = False"
| "has_range_error (JBool b) = False"
| "has_range_error (JNumber neg mant exp10) = float64_overflow mant exp10"
| "has_range_error (JString s) = False"
| "has_range_error (JArray vs) = list_ex has_range_error vs"
| "has_range_error (JObject ms) = list_ex (\<lambda>(k, v). has_range_error v) ms"

text \<open>
  \<^verbatim>\<open>json.Unmarshal(data, &rawConfigMap)\<close> with \<^verbatim>\<open>rawConfigMap\<close> a fresh
  \<^verbatim>\<open>map[string]any\<close>: a syntax error anywhere in the text comes first; a number out
  of range, or a text that is not an object, is an \<^verbatim>\<open>UnmarshalTypeError\<close>; the text
  \<^verbatim>\<open>null\<close> leaves a \<^verbatim>\<open>nil\<close> map, over which a loop does nothing.
\<close>

definition Unmarshal :: "string \<Rightarrow> json_err + (string \<times> any) list" where
  "Unmarshal data =
     (case checkValid data of
        None \<Rightarrow> Inl SyntaxError
      | Some j \<Rightarrow>
          if has_range_error j then Inl UnmarshalTypeError
          else (case toAny j of
                  VMap m \<Rightarrow> Inr m
                | VNil \<Rightarrow> Inr []
                | _ \<Rightarrow> Inl UnmarshalTypeError))"

subsection \<open>The rendering by the verb v\<close>

text \<open>
  A \<^verbatim>\<open>float64\<close> is printed by \<^verbatim>\<open>strconv.AppendFloat(buf, f, 'g', -1, 64)\<close>. It
  first finds the shortest decimal digits \<open>ds\<close> and the position \<open>dp\<close> of the decimal
  point such that \<open>0.ds * 10 ^ dp\<close> reads back as \<open>f\<close>, and then lays them out: in the
  style of \<^verbatim>\<open>%e\<close> when the exponent \<open>dp - 1\<close> is below \<open>-4\<close> or at least \<open>6\<close>, in
  the style of \<^verbatim>\<open>%f\<close> otherwise. \<open>fmtE\<close>, \<open>fmtF\<close> and \<open>formatDigits\<close> are the
  functions of \<^verbatim>\<open>strconv\<close> with these names, for the format \<^verbatim>\<open>'g'\<close> and the
  shortest precision.
\<close>

definition digit_char :: "nat \<Rightarrow> char" where
  "digit_char d = char_of (48 + d)"

definition fmtE :: "bool \<Rightarrow> nat list \<Rightarrow> int \<Rightarrow> nat \<Rightarrow> string" where
  "fmtE neg ds dp prec =
     (let nd = length ds;
          m = min nd (prec + 1);
          i = (if 1 < m then m else 1);
          exp = (if nd = 0 then 0 else dp - 1);
          e = nat (abs exp)
      in (if neg then ''-'' else [])
         @ [if nd \<noteq> 0 then digit_char (hd ds) else CHR ''0'']
         @ (if prec > 0
            then ''.'' @ map digit_char (take (m - 1) (drop 1 ds))
                 @ replicate (prec + 1 - i) (CHR ''0'')
            else [])
         @ ''e''
         @ (if exp < 0 then ''-'' else ''+'')
         @ (if e < 10 then [CHR ''0'', digit_char e]
            else if e < 100 then [digit_char (e div 10), digit_char (e mod 10)]
            else [digit_char (e div 100), digit_char (e div 10 mod 10),
                  digit_char (e mod 10)]))"

definition fmtF :: "bool \<Rightarrow> nat list \<Rightarrow> int \<Rightarrow> nat \<Rightarrow> string" where
  "fmtF neg ds dp prec =
     (let nd = length ds;
          m = min nd (nat dp)
      in (if neg then ''-'' else [])
         @ (if dp > 0
            then map digit_char (take m ds) @ replicate (nat dp - m) (CHR ''0'')
            else ''0'')
         @ (if prec > 0
            then ''.'' @ map (\<lambda>i. if 0 \<le> dp + int i \<and> dp + int i < int nd
                                    then digit_char (ds ! nat (dp + int i))
                                    else CHR ''0'') [0 ..< prec]
            else []))"

definition formatDigits :: "bool \<Rightarrow> nat list \<Rightarrow> int \<Rightarrow> string" where
  "formatDigits neg ds dp =
     (let nd = length ds; eprec = 6; exp = dp - 1
      in if exp < - 4 \<or> exp \<ge> eprec then fmtE neg ds dp (nd - 1)
         else fmtF neg ds dp (nat (max (int nd - dp) 0)))"

text \<open>
  The shortest digits. A literal that denotes an integer below \<open>2^53\<close> is a
  \<^verbatim>\<open>float64\<close> exactly, and no decimal with fewer digits rounds to it: its shortest
  digits are its own digits without the trailing zeros. For every other literal the
  digits come from the rounding to \<^verbatim>\<open>float64\<close> and the digit generation of
  \<^verbatim>\<open>strconv\<close>; that step is the parameter \<open>shortest\<close>, which maps \<open>mant\<close> and
  \<open>exp10\<close> to the digits and the position of the decimal point.
\<close>

fun decimal_digits :: "nat \<Rightarrow> nat list" where
  "decimal_digits n = (if n = 0 then [] else decimal_digits (n div 10) @ [n mod 10])"

declare decimal_digits.simps [simp del]

text \<open>\<^verbatim>\<open>strconv.Itoa\<close>: the decimal text of an integer.\<close>

definition Itoa :: "int \<Rightarrow> string" where
  "Itoa i =
     (if i < 0 then ''-'' else []) @
     (if i = 0 then ''0'' else map digit_char (decimal_digits (nat (abs i))))"

definition exact_int :: "nat \<Rightarrow> int \<Rightarrow> nat option" where
  "exact_int mant exp10 =
     (if exp10 \<ge> 0 then Some (mant * 10 ^ nat exp10)
      else if 10 ^ nat (- exp10) dvd mant then Some (mant div 10 ^ nat (- exp10))
      else None)"

definition strip_zeros :: "nat list \<Rightarrow> nat list" where
  "strip_zeros ds = rev (dropWhile (\<lambda>d. d = 0) (rev ds))"

definition float64_digits ::
  "(nat \<Rightarrow> int \<Rightarrow> nat list \<times> int) \<Rightarrow> nat \<Rightarrow> int \<Rightarrow> nat list \<times> int" where
  "float64_digits shortest mant exp10 =
     (case exact_int mant exp10 of
        None \<Rightarrow> shortest mant exp10
      | Some n \<Rightarrow>
          if n < 2 ^ 53
          then (strip_zeros (decimal_digits n), int (length (decimal_digits n)))
          else shortest mant exp10)"

definition format_float64 ::
  "(nat \<Rightarrow> int \<Rightarrow> nat list \<times> int) \<Rightarrow> bool \<Rightarrow> nat \<Rightarrow> int \<Rightarrow> string" where
  "format_float64 shortest neg mant exp10 =
     (case float64_digits shortest mant exp10 of (ds, dp) \<Rightarrow> formatDigits neg ds dp)"

text \<open>
  \<^verbatim>\<open>fmt.Sprintf("%v", value)\<close> for the values that decoding yields: \<^verbatim>\<open>nil\<close> prints
  as \<^verbatim>\<open><nil>\<close>, a string as itself, a slice as \<^verbatim>\<open>[a b]\<close>, a map as
  \<^verbatim>\<open>map[k:v k:v]\<close> with its keys in increasing order.
\<close>

fun join_words :: "string list \<Rightarrow> string" where
  "join_words [] = []"
| "join_words [w] = w"
| "join_words (w # ws) = w @ '' '' @ join_words ws"

fun Sprintf_v :: "(nat \<Rightarrow> int \<Rightarrow> nat list \<times> int) \<Rightarrow> any \<Rightarrow> string" where
  "Sprintf_v shortest VNil = ''<nil>''"
| "Sprintf_v shortest (VBool b) = (if b then ''true'' else ''false'')"
| "Sprintf_v shortest (VFloat64 neg mant exp10) = format_float64 shortest neg mant exp10"
| "Sprintf_v shortest (VString s) = s"
| "Sprintf_v shortest (VSlice vs) =
     ''['' @ join_words (map (Sprintf_v shortest) vs) @ '']''"
| "Sprintf_v shortest (VMap m) =
     ''map['' @ join_words (map (\<lambda>(k, v). k @ '':'' @ Sprintf_v shortest v) m) @ '']''"

section \<open>Loading the configuration\<close>

text \<open>
  The loop of \<^verbatim>\<open>LoadConfig\<close> assigns \<^verbatim>\<open>rcm.config[key]\<close> for every key of the
  decoded map. It writes into the map the store already holds.
\<close>

fun store_all ::
  "(nat \<Rightarrow> int \<Rightarrow> nat list \<times> int) \<Rightarrow> (string \<rightharpoonup> string) \<Rightarrow> (string \<times> any) list
     \<Rightarrow> (string \<rightharpoonup> string)" where
  "store_all shortest cfg [] = cfg"
| "store_all shortest cfg ((key, v) # rawConfigMap) =
     store_all shortest (cfg(key \<mapsto> Sprintf_v shortest v)) rawConfigMap"

text \<open>
  \<^verbatim>\<open>LoadConfig\<close>. \<open>redis_get\<close> is \<^verbatim>\<open>rcm.r.Get(ctx, key).Result()\<close>, the answer of
  the remote at the time of the call, and \<open>now\<close> is \<^verbatim>\<open>time.Now()\<close>. The result is
  the returned error (\<open>None\<close> for \<^verbatim>\<open>nil\<close>) and the store after the call.
\<close>

definition LoadConfig ::
  "(nat \<Rightarrow> int \<Rightarrow> nat list \<times> int) \<Rightarrow> (string \<Rightarrow> redis_err + string) \<Rightarrow> int
     \<Rightarrow> RedisConfigManager \<Rightarrow> error option \<times> RedisConfigManager" where
  "LoadConfig shortest redis_get now rcm =
     (case redis_get (serviceName rcm) of
        Inl err \<Rightarrow> (Some (FailedToGetConfig err), rcm)
      | Inr rawConfig \<Rightarrow>
          (case Unmarshal rawConfig of
             Inl err \<Rightarrow> (Some (FailedToUnmarshalConfig err), rcm)
           | Inr rawConfigMap \<Rightarrow>
               (None, rcm\<lparr>config := store_all shortest (config rcm) rawConfigMap,
                          updatedAt := now\<rparr>)))"

text \<open>
  The mapping a decoded payload stands for: each key of the payload with the rendering
  of its value.
\<close>

definition rendered ::
  "(nat \<Rightarrow> int \<Rightarrow> nat list \<times> int) \<Rightarrow> (string \<times> any) list \<Rightarrow> (string \<rightharpoonup> string)" where
  "rendered shortest m = map_of (map (\<lambda>(k, v). (k, Sprintf_v shortest v)) m)"

section \<open>The scenarios of the tests\<close>

text \<open>
  The tests run the store against a Redis server that holds one key
  (\<^verbatim>\<open>mr.Set(key, value)\<close>) or that has been shut down (\<^verbatim>\<open>mr.Close()\<close>).
  \<open>test_config_json\<close> is the configuration of the end-to-end scenario.
\<close>

definition redis_holding :: "string \<Rightarrow> string \<Rightarrow> string \<Rightarrow> redis_err + string" where
  "redis_holding name payload key = (if key = name then Inr payload else Inl RedisNil)"

definition redis_closed :: "string \<Rightarrow> redis_err + string" where
  "redis_closed key = Inl (RedisFailure ''connection refused'')"

definition test_config_json :: string where
  \<open>test_config_json =
     ''{"int_key":42,"float_key":3.14,"string_key":"test_value","bool_key":true,"duration_key":"5s"}''\<close>

section \<open>strconv.ParseFloat\<close>

subsection \<open>Rounding to float64\<close>

text \<open>
  A finite \<^verbatim>\<open>float64\<close> is \<open>Float64 neg m e\<close>, the number \<open>m * 2^e\<close> with the sign
  \<open>neg\<close>: \<open>2^52 \<le> m < 2^53\<close> and \<open>-1074 \<le> e \<le> 971\<close> for a normal number,
  \<open>m < 2^52\<close> and \<open>e = -1074\<close> for a subnormal one, and \<open>m = 0\<close>, \<open>e = 0\<close> for zero.
  The other values are the two infinities and NaN.
\<close>

datatype float64 = Float64 bool nat int | Float64_Inf bool | Float64_NaN

fun bit_length :: "nat \<Rightarrow> nat" where
  "bit_length n = (if n = 0 then 0 else Suc (bit_length (n div 2)))"

declare bit_length.simps [simp del]

text \<open>
  \<open>round_half_even a b\<close> is the integer nearest to \<open>a / b\<close>, the even one of the two
  when \<open>a / b\<close> is halfway between them.
\<close>

definition round_half_even :: "nat \<Rightarrow> nat \<Rightarrow> nat" where
  "round_half_even a b =
     (let q = a div b; r = a mod b
      in if 2 * r < b then q
         else if b < 2 * r then q + 1
         else if even q then q
         else q + 1)"

text \<open>
  \<open>floor_log2 num den\<close> is the \<open>k\<close> with \<open>2^k \<le> num / den < 2^(k+1)\<close>, for positive
  \<open>num\<close> and \<open>den\<close>.
\<close>

definition floor_log2 :: "nat \<Rightarrow> nat \<Rightarrow> int" where
  "floor_log2 num den =
     (let k = int (bit_length num) - int (bit_length den)
      in if (if 0 \<le> k then den * 2 ^ nat k \<le> num else den \<le> num * 2 ^ nat (- k))
         then k else k - 1)"

text \<open>
  \<open>float64_round num den\<close> is the \<^verbatim>\<open>float64\<close> nearest to \<open>num / den\<close> (IEEE 754
  round to nearest, ties to even), as its \<open>m\<close> and \<open>e\<close>; \<open>None\<close> when the rounded
  value is beyond the largest \<^verbatim>\<open>float64\<close>. A value that rounds to nothing is zero.
\<close>

definition float64_round :: "nat \<Rightarrow> nat \<Rightarrow> (nat \<times> int) option" where
  "float64_round num den =
     (if num = 0 then Some (0, 0)
      else
        (let e = max (floor_log2 num den - 52) (- 1074);
             m = (if 0 \<le> e then round_half_even num (den * 2 ^ nat e)
                  else round_half_even (num * 2 ^ nat (- e)) den);
             e' = (if m = 2 ^ 53 then e + 1 else e);
             m' = (if m = 2 ^ 53 then 2 ^ 52 else m)
         in if 971 < e' then None
            else if m' = 0 then Some (0, 0)
            else Some (m', e')))"

text \<open>The \<^verbatim>\<open>float64\<close> nearest to \<open>m * b^x\<close>.\<close>

definition round_scaled :: "nat \<Rightarrow> nat \<Rightarrow> int \<Rightarrow> (nat \<times> int) option" where
  "round_scaled m b x =
     (if 0 \<le> x then float64_round (m * b ^ nat x) 1 else float64_round m (b ^ nat (- x)))"

text \<open>
  The fraction of a unit in \<^verbatim>\<open>time.ParseDuration\<close>,
  \<^verbatim>\<open>uint64(float64(f) * (float64(unit) / scale))\<close>, where \<^verbatim>\<open>scale\<close> is ten to the
  number \<open>k\<close> of fraction digits, which is a \<^verbatim>\<open>float64\<close> exactly for the at most
  nineteen digits \<open>leadingFraction\<close> accumulates: the conversion of \<open>f\<close>, the division
  and the product each round to the nearest \<^verbatim>\<open>float64\<close>, and the conversion to
  \<^verbatim>\<open>uint64\<close> drops the fraction.
\<close>

definition duration_frac :: "nat \<Rightarrow> nat \<Rightarrow> nat \<Rightarrow> nat" where
  "duration_frac f unit k =
     (case float64_round f 1 of
        None \<Rightarrow> 0
      | Some (mf, ef) \<Rightarrow>
          (case float64_round unit (10 ^ k) of
             None \<Rightarrow> 0
           | Some (mq, eq) \<Rightarrow>
               (case round_scaled (mf * mq) 2 (ef + eq) of
                  None \<Rightarrow> 0
                | Some (mp, ep) \<Rightarrow>
                    if 0 \<le> ep then mp * 2 ^ nat ep else mp div 2 ^ nat (- ep))))"

subsection \<open>Reading the text\<close>

text \<open>
  \<^verbatim>\<open>special\<close> recognises the infinities and NaN, ignoring case: an optional sign and
  \<^verbatim>\<open>inf\<close> or \<^verbatim>\<open>infinity\<close>, or \<^verbatim>\<open>nan\<close> without a sign. It returns the value and the
  number of bytes it read.
\<close>

definition to_lower :: "char \<Rightarrow> char" where
  "to_lower c = (if CHR ''A'' \<le> c \<and> c \<le> CHR ''Z'' then char_of (of_char c + (32::nat)) else c)"

fun commonPrefixLenIgnoreCase :: "string \<Rightarrow> string \<Rightarrow> nat" where
  "commonPrefixLenIgnoreCase (c # s) (p # prefix) =
     (if to_lower c = p then Suc (commonPrefixLenIgnoreCase s prefix) else 0)"
| "commonPrefixLenIgnoreCase s prefix = 0"

definition special :: "string \<Rightarrow> (float64 \<times> nat) option" where
  "special s =
     (case s of
        [] \<Rightarrow> None
      | c # r \<Rightarrow>
          if c = CHR ''+'' \<or> c = CHR ''-'' \<or> c = CHR ''i'' \<or> c = CHR ''I'' then
            (let signed = (c = CHR ''+'' \<or> c = CHR ''-'');
                 n = commonPrefixLenIgnoreCase (if signed then r else s) ''infinity'';
                 n' = (if 3 < n \<and> n < 8 then 3 else n)
             in if n' = 3 \<or> n' = 8
                then Some (Float64_Inf (c = CHR ''-''), (if signed then 1 else 0) + n')
                else None)
          else if c = CHR ''n'' \<or> c = CHR ''N'' then
            (if commonPrefixLenIgnoreCase s ''nan'' = 3 then Some (Float64_NaN, 3) else None)
          else None)"

text \<open>
  \<^verbatim>\<open>readFloat\<close> reads the digits of the mantissa, decimal or (after \<^verbatim>\<open>0x\<close>)
  hexadecimal, with at most one point and with underscores. Go keeps the first nineteen
  digits, whether a later one was not zero, and the position of the point, and reads the
  text again when digits were dropped, so that the result is that of all the digits;
  here \<open>m\<close> is the number all the digits spell and \<open>fd\<close> the number of digits after
  the point.
\<close>

definition is_hex_letter :: "char \<Rightarrow> bool" where
  "is_hex_letter c \<longleftrightarrow>
     (CHR ''a'' \<le> c \<and> c \<le> CHR ''f'') \<or> (CHR ''A'' \<le> c \<and> c \<le> CHR ''F'')"

fun readMantissa ::
  "bool \<Rightarrow> nat \<Rightarrow> nat \<Rightarrow> bool \<Rightarrow> bool \<Rightarrow> bool \<Rightarrow> string
     \<Rightarrow> nat \<times> nat \<times> bool \<times> bool \<times> string" where
  "readMantissa hex m fd sawdot sawdigits underscores [] =
     (m, fd, sawdigits, underscores, [])"
| "readMantissa hex m fd sawdot sawdigits underscores (c # s) =
     (if c = CHR ''_'' then readMantissa hex m fd sawdot sawdigits True s
      else if c = CHR ''.'' then
        (if sawdot then (m, fd, sawdigits, underscores, c # s)
         else readMantissa hex m fd True sawdigits underscores s)
      else if is_digit c then
        readMantissa hex (m * (if hex then 16 else 10) + digit_val c)
          (if sawdot then Suc fd else fd) sawdot True underscores s
      else if hex \<and> is_hex_letter c then
        readMantissa hex (m * 16 + hex_val c)
          (if sawdot then Suc fd else fd) sawdot True underscores s
      else (m, fd, sawdigits, underscores, c # s))"

text \<open>
  The digits of the exponent, with underscores; the value stops growing once it has
  reached 10000.
\<close>

fun readExponent :: "nat \<Rightarrow> bool \<Rightarrow> string \<Rightarrow> nat \<times> bool \<times> string" where
  "readExponent e underscores [] = (e, underscores, [])"
| "readExponent e underscores (c # s) =
     (if c = CHR ''_'' then readExponent e True s
      else if is_digit c then
        readExponent (if e < 10000 then e * 10 + digit_val c else e) underscores s
      else (e, underscores, c # s))"

text \<open>
  \<^verbatim>\<open>underscoreOK\<close>: an underscore must separate digits; the base prefix counts as a
  digit. \<open>saw\<close> is the kind of the last character: \<^verbatim>\<open>^\<close> for the beginning,
  \<^verbatim>\<open>0\<close> for a digit, \<^verbatim>\<open>_\<close> for an underscore and \<^verbatim>\<open>!\<close> for anything else.
\<close>

fun underscoreOK_loop :: "bool \<Rightarrow> char \<Rightarrow> string \<Rightarrow> bool" where
  "underscoreOK_loop hex saw [] = (saw \<noteq> CHR ''_'')"
| "underscoreOK_loop hex saw (c # s) =
     (if is_digit c \<or> hex \<and> is_hex_letter c then underscoreOK_loop hex (CHR ''0'') s
      else if c = CHR ''_'' then
        (if saw \<noteq> CHR ''0'' then False else underscoreOK_loop hex (CHR ''_'') s)
      else if saw = CHR ''_'' then False
      else underscoreOK_loop hex (CHR ''!'') s)"

definition underscoreOK :: "string \<Rightarrow> bool" where
  "underscoreOK s0 =
     (let s = (case s0 of c # r \<Rightarrow> if c = CHR ''-'' \<or> c = CHR ''+'' then r else s0
                        | [] \<Rightarrow> s0)
      in case s of
           c0 # c1 # r \<Rightarrow>
             if c0 = CHR ''0'' \<and> to_lower c1 \<in> {CHR ''b'', CHR ''o'', CHR ''x''}
             then underscoreOK_loop (to_lower c1 = CHR ''x'') (CHR ''0'') r
             else underscoreOK_loop False (CHR ''^'') s
         | _ \<Rightarrow> underscoreOK_loop False (CHR ''^'') s)"

text \<open>
  The optional exponent: \<^verbatim>\<open>e\<close> and a power of ten for a decimal mantissa,
  \<^verbatim>\<open>p\<close> and a power of two, which must be there, for a hexadecimal one. \<open>dp\<close> is the
  exponent the point gives. The result is the exponent, whether an underscore was seen,
  and the rest of the string.
\<close>

definition read_exp :: "bool \<Rightarrow> int \<Rightarrow> bool \<Rightarrow> string \<Rightarrow> (int \<times> bool \<times> string) option" where
  "read_exp hex dp underscores s =
     (case s of
        [] \<Rightarrow> if hex then None else Some (dp, underscores, s)
      | c # s1 \<Rightarrow>
          if to_lower c = (if hex then CHR ''p'' else CHR ''e'') then
            (case s1 of
               [] \<Rightarrow> None
             | c1 # s2 \<Rightarrow>
                 (let s3 = (if c1 = CHR ''+'' \<or> c1 = CHR ''-'' then s2 else s1)
                  in case s3 of
                       [] \<Rightarrow> None
                     | c3 # s4 \<Rightarrow>
                         if \<not> is_digit c3 then None
                         else
                           (case readExponent 0 underscores s3 of
                              (e, underscores', rest) \<Rightarrow>
                                Some (dp + (if c1 = CHR ''-'' then - int e else int e),
                                      underscores', rest))))
          else if hex then None
          else Some (dp, underscores, s))"

text \<open>
  \<^verbatim>\<open>readFloat\<close> returns the sign, whether the mantissa is hexadecimal, the mantissa,
  the exponent (of ten, or of two for a hexadecimal mantissa) and the rest of the string;
  \<open>None\<close> is its \<^verbatim>\<open>ok = false\<close>.
\<close>

definition hex_prefix :: "string \<Rightarrow> bool" where
  "hex_prefix s \<longleftrightarrow> 2 < length s \<and> s ! 0 = CHR ''0'' \<and> to_lower (s ! 1) = CHR ''x''"

definition readFloat :: "string \<Rightarrow> (bool \<times> bool \<times> nat \<times> int \<times> string) option" where
  "readFloat s =
     (case s of
        [] \<Rightarrow> None
      | c # r \<Rightarrow>
          (let neg = (c = CHR ''-'');
               s1 = (if c = CHR ''+'' \<or> c = CHR ''-'' then r else s);
               hex = hex_prefix s1;
               s2 = (if hex then drop 2 s1 else s1)
           in case readMantissa hex 0 0 False False False s2 of
                (m, fd, sawdigits, underscores, s3) \<Rightarrow>
                  if \<not> sawdigits then None
                  else
                    (case read_exp hex (- int (if hex then 4 * fd else fd)) underscores s3 of
                       None \<Rightarrow> None
                     | Some (ex, underscores', rest) \<Rightarrow>
                         if underscores' \<and> \<not> underscoreOK (take (length s - length rest) s)
                         then None
                         else Some (neg, hex, m, ex, rest))))"

text \<open>
  \<^verbatim>\<open>strconv.ParseFloat(s, 64)\<close>: a syntax error unless the whole string was read, a
  range error when the value is more than half a unit in the last place beyond the
  largest \<^verbatim>\<open>float64\<close>, and the nearest \<^verbatim>\<open>float64\<close> otherwise.
\<close>

definition ParseFloat :: "string \<Rightarrow> num_err + float64" where
  "ParseFloat s =
     (case special s of
        Some (f, n) \<Rightarrow> if n \<noteq> length s then Inl ErrSyntax else Inr f
      | None \<Rightarrow>
          (case readFloat s of
             None \<Rightarrow> Inl ErrSyntax
           | Some (neg, hex, m, ex, rest) \<Rightarrow>
               if rest \<noteq> [] then Inl ErrSyntax
               else
                 (case round_scaled m (if hex then 2 else 10) ex of
                    None \<Rightarrow> Inl ErrRange
                  | Some (m', e') \<Rightarrow> Inr (Float64 neg m' e'))))"

section \<open>Valid text\<close>

text \<open>
  The texts a snapshot may hold for each type and the values they denote, described by
  their form and not by the parsers.

  An integer text is a plain decimal string that denotes a 64-bit integer.
\<close>

definition int_of_text :: "string \<Rightarrow> int" where
  "int_of_text s =
     (case s of
        [] \<Rightarrow> 0
      | c # r \<Rightarrow>
          if c = CHR ''-'' then - int (digits_val r)
          else if c = CHR ''+'' then int (digits_val r)
          else int (digits_val s))"

definition valid_int_text :: "string \<Rightarrow> bool" where
  "valid_int_text s \<longleftrightarrow>
     plain_decimal s \<and> - (2 ^ 63) \<le> int_of_text s \<and> int_of_text s < 2 ^ 63"

text \<open>
  A duration text is an optional sign and one or more groups. A group is the digits of
  a whole part, the digits of a fraction (written after a point when there are any) and
  a unit; one of the two digit strings may be empty. Its value is the whole part times
  the unit plus the fraction of the unit, which Go computes in \<^verbatim>\<open>float64\<close>
  (the parameter \<open>frac\<close> of \<open>ParseDuration_group\<close>). The text is valid when the groups
  add up to at most \<open>2^63 - 1\<close> nanoseconds.
\<close>

definition group_text :: "string \<times> string \<times> string \<Rightarrow> string" where
  "group_text g = (case g of (w, fr, u) \<Rightarrow> w @ (if fr = [] then [] else CHR ''.'' # fr) @ u)"

definition group_ok :: "string \<times> string \<times> string \<Rightarrow> bool" where
  "group_ok g =
     (case g of (w, fr, u) \<Rightarrow>
        (w \<noteq> [] \<or> fr \<noteq> []) \<and> list_all is_digit w \<and> list_all is_digit fr \<and> length fr \<le> 18 \<and>
        unitMap u \<noteq> None)"

definition group_value :: "(nat \<Rightarrow> nat \<Rightarrow> nat \<Rightarrow> nat) \<Rightarrow> string \<times> string \<times> string \<Rightarrow> nat" where
  "group_value frac g =
     (case g of (w, fr, u) \<Rightarrow>
        (case unitMap u of
           None \<Rightarrow> 0
         | Some unit \<Rightarrow>
             digits_val w * unit +
             (if digits_val fr > 0 then frac (digits_val fr) unit (length fr) else 0)))"

definition duration_text :: "string \<Rightarrow> (string \<times> string \<times> string) list \<Rightarrow> string" where
  "duration_text sg gs = sg @ concat (map group_text gs)"

definition duration_value ::
  "(nat \<Rightarrow> nat \<Rightarrow> nat \<Rightarrow> nat) \<Rightarrow> string \<Rightarrow> (string \<times> string \<times> string) list \<Rightarrow> int" where
  "duration_value frac sg gs =
     (if sg = ''-'' then - int (sum_list (map (group_value frac) gs))
      else int (sum_list (map (group_value frac) gs)))"

definition valid_duration ::
  "(nat \<Rightarrow> nat \<Rightarrow> nat \<Rightarrow> nat) \<Rightarrow> string \<Rightarrow> (string \<times> string \<times> string) list \<Rightarrow> bool" where
  "valid_duration frac sg gs \<longleftrightarrow>
     sg \<in> {[], ''-'', ''+''} \<and> gs \<noteq> [] \<and> list_all group_ok gs \<and> sum_list (map (group_value frac) gs) \<le> 2 ^ 63 - 1"

text \<open>
  A float text in decimal notation is an optional sign, the digits of the integer part,
  the digits of the fraction (written after a point when there are any; one of the two
  digit strings may be empty) and an optional exponent: \<^verbatim>\<open>e\<close> or \<^verbatim>\<open>E\<close>, an optional
  sign and at most five digits. Its value is the \<^verbatim>\<open>float64\<close> nearest to the number the
  text spells; there is none when that number is too large.
\<close>

definition float_text ::
  "string \<Rightarrow> string \<Rightarrow> string \<Rightarrow> (char \<times> string \<times> string) option \<Rightarrow> string" where
  "float_text sg ip fp ex =
     sg @ ip @ (if fp = [] then [] else CHR ''.'' # fp) @
     (case ex of None \<Rightarrow> [] | Some (ec, esg, ed) \<Rightarrow> ec # esg @ ed)"

definition float_text_ok ::
  "string \<Rightarrow> string \<Rightarrow> string \<Rightarrow> (char \<times> string \<times> string) option \<Rightarrow> bool" where
  "float_text_ok sg ip fp ex \<longleftrightarrow>
     sg \<in> {[], ''-'', ''+''} \<and> list_all is_digit ip \<and> list_all is_digit fp \<and>
     (ip \<noteq> [] \<or> fp \<noteq> []) \<and>
     (case ex of
        None \<Rightarrow> True
      | Some (ec, esg, ed) \<Rightarrow>
          ec \<in> {CHR ''e'', CHR ''E''} \<and> esg \<in> {[], ''-'', ''+''} \<and>
          ed \<noteq> [] \<and> list_all is_digit ed \<and> length ed \<le> 5)"

definition float_exponent :: "string \<Rightarrow> (char \<times> string \<times> string) option \<Rightarrow> int" where
  "float_exponent fp ex =
     (case ex of
        None \<Rightarrow> 0
      | Some (ec, esg, ed) \<Rightarrow>
          if esg = ''-'' then - int (digits_val ed) else int (digits_val ed))
     - int (length fp)"

definition float_value ::
  "string \<Rightarrow> string \<Rightarrow> string \<Rightarrow> (char \<times> string \<times> string) option \<Rightarrow> float64 option" where
  "float_value sg ip fp ex =
     map_option (\<lambda>(m, e). Float64 (sg = ''-'') m e)
       (round_scaled (digits_val (ip @ fp)) 10 (float_exponent fp ex))"

text \<open>The characters of a float text in decimal notation.\<close>

definition float_char :: "char \<Rightarrow> bool" where
  "float_char c \<longleftrightarrow>
     is_digit c \<or> c = CHR ''.'' \<or> c = CHR ''e'' \<or> c = CHR ''E'' \<or> c = CHR ''+'' \<or> c = CHR ''-''"

section \<open>Properties of the parsers\<close>

lemma Atoi_error: "Atoi s = Inl e \<Longrightarrow> is_ParseError e"
  by (auto simp: Atoi_def Let_def split: list.splits if_splits option.splits sum.splits)

lemma ParseBool_error: "ParseBool s = Inl e \<Longrightarrow> is_ParseError e"
  by (auto simp: ParseBool_def split: if_splits)

lemma ParseDuration_error: "ParseDuration frac s = Inl e \<Longrightarrow> is_ParseError e"
  by (auto simp: ParseDuration_def Let_def split: if_splits sum.splits)

lemmas getter_defs =
  GetInt_def GetFloat_def GetString_def GetBool_def GetDuration_def

lemmas default_defs =
  GetIntWithDefault_def GetFloatWithDefault_def GetStringWithDefault_def
  GetBoolWithDefault_def GetDurationWithDefault_def

lemmas parser_defs =
  Atoi_def ParseBool_def ParseDuration_def ParseDuration_loop.simps
  ParseDuration_group_def is_digit_def digit_val_def unit_char_def unitMap_def
  Hour_def Minute_def Second_def Millisecond_def Microsecond_def Nanosecond_def

lemma Atoi_fast_digits: "Atoi_fast n s = Some m \<Longrightarrow> list_all is_digit s"
  by (induction n s rule: Atoi_fast.induct) (auto split: if_splits)

lemma ParseUint_loop_digits: "ParseUint_loop n s = Inr m \<Longrightarrow> list_all is_digit s"
  by (induction n s rule: ParseUint_loop.induct) (auto split: if_splits)

lemma ParseInt_plain: "ParseInt s = Inr i \<Longrightarrow> plain_decimal s"
proof -
  assume a: "ParseInt s = Inr i"
  then obtain c r where s: "s = c # r"
    by (cases s) (auto simp: ParseInt_def)
  define s1 where "s1 = (if c = CHR ''+'' \<or> c = CHR ''-'' then r else s)"
  from a s obtain un where un: "ParseUint s1 = Inr un"
    by (auto simp: ParseInt_def Let_def s1_def split: sum.splits num_err.splits if_splits)
  then have ne: "s1 \<noteq> []" and "ParseUint_loop 0 s1 = Inr un"
    by (auto simp: ParseUint_def split: if_splits)
  then have "list_all is_digit s1" by (auto dest: ParseUint_loop_digits)
  with ne s show ?thesis
    by (auto simp: plain_decimal_def s1_def split: if_splits)
qed

lemma Atoi_plain: "Atoi s = Inr i \<Longrightarrow> plain_decimal s"
proof -
  assume a: "Atoi s = Inr i"
  show ?thesis
  proof (cases "ParseInt s = Inr i")
    case True
    then show ?thesis by (rule ParseInt_plain)
  next
    case False
    with a obtain c r where s: "s = c # r" and short: "length s < 19"
      by (cases s) (auto simp: Atoi_def split: sum.splits if_splits)
    define s1 where "s1 = (if c = CHR ''-'' \<or> c = CHR ''+'' then r else s)"
    from a False s short obtain n where n: "Atoi_fast 0 s1 = Some n"
      and ne: "\<not> ((c = CHR ''-'' \<or> c = CHR ''+'') \<and> length s1 < 1)"
      by (auto simp: Atoi_def Let_def s1_def split: option.splits if_splits)
    from n have "list_all is_digit s1" by (rule Atoi_fast_digits)
    with ne s show ?thesis
      by (auto simp: plain_decimal_def s1_def split: if_splits)
  qed
qed

section \<open>Properties of decoding and loading\<close>

lemma map_set_keys: "set (map fst (map_set m k v)) = insert k (set (map fst m))"
  by (induction m k v rule: map_set.induct) auto

lemma map_set_sorted:
  "sorted_wrt (<) (map fst m) \<Longrightarrow> sorted_wrt (<) (map fst (map_set m k v))"
proof (induction m k v rule: map_set.induct)
  case (1 k v)
  then show ?case by simp
next
  case (2 k' v' m k v)
  show ?case
  proof (cases "k = k'")
    case True
    with "2.prems" show ?thesis by simp
  next
    case ne: False
    show ?thesis
    proof (cases "k < k'")
      case True
      with ne "2.prems" show ?thesis by (auto intro: less_trans)
    next
      case False
      with ne have lt: "k' < k" by simp
      from "2.prems" have "sorted_wrt (<) (map fst m)" by simp
      with "2.IH" ne False have "sorted_wrt (<) (map fst (map_set m k v))" by simp
      moreover from "2.prems" lt have "\<forall>x \<in> set (map fst (map_set m k v)). k' < x"
        unfolding map_set_keys by auto
      ultimately show ?thesis using ne False by simp
    qed
  qed
qed

lemma map_of_map_set: "map_of (map_set m k v) = (map_of m)(k \<mapsto> v)"
  by (induction m k v rule: map_set.induct) (auto simp: fun_upd_twist)

lemma foldl_map_set_sorted:
  "sorted_wrt (<) (map fst acc) \<Longrightarrow>
   sorted_wrt (<) (map fst (foldl (\<lambda>m (k, v). map_set m k v) acc ms))"
  by (induction ms arbitrary: acc) (auto simp: map_set_sorted split: prod.splits)

lemma make_map_sorted: "sorted_wrt (<) (map fst (make_map ms))"
  unfolding make_map_def by (rule foldl_map_set_sorted) simp

lemma foldl_map_set_map_of:
  "map_of (foldl (\<lambda>m (k, v). map_set m k v) acc ms) = map_of acc ++ map_of (rev ms)"
  by (induction ms arbitrary: acc) (auto simp: map_of_map_set split: prod.splits)

lemma make_map_map_of: "map_of (make_map ms) = map_of (rev ms)"
  unfolding make_map_def by (simp add: foldl_map_set_map_of)

lemma Unmarshal_sorted:
  assumes "Unmarshal raw = Inr m"
  shows "sorted_wrt (<) (map fst m)"
proof -
  from assms obtain j where j: "checkValid raw = Some j" "\<not> has_range_error j"
    and m: "toAny j = VMap m \<or> (toAny j = VNil \<and> m = [])"
    by (auto simp: Unmarshal_def split: option.splits if_splits any.splits)
  from m show ?thesis
  proof
    assume "toAny j = VMap m"
    then obtain ms where "m = make_map (map (\<lambda>(k, v). (k, toAny v)) ms)"
      by (cases j) auto
    then show ?thesis by (simp add: make_map_sorted)
  next
    assume "toAny j = VNil \<and> m = []"
    then show ?thesis by simp
  qed
qed

lemma Unmarshal_distinct: "Unmarshal raw = Inr m \<Longrightarrow> distinct (map fst m)"
  using Unmarshal_sorted strict_sorted_iff by blast

lemma store_all_map_add:
  "distinct (map fst m) \<Longrightarrow> store_all shortest cfg m = cfg ++ rendered shortest m"
proof (induction m arbitrary: cfg)
  case Nil
  then show ?case by (simp add: rendered_def)
next
  case (Cons kv m)
  obtain k v where kv: "kv = (k, v)" by (cases kv)
  from Cons.prems kv have nk: "k \<notin> fst ` set m" and d: "distinct (map fst m)" by auto
  from nk have "rendered shortest m k = None"
    by (auto simp: rendered_def map_of_eq_None_iff image_iff)
  then have e1: "cfg(k \<mapsto> Sprintf_v shortest v) ++ rendered shortest m
               = (cfg ++ rendered shortest m)(k \<mapsto> Sprintf_v shortest v)"
    by (auto simp: map_add_def fun_eq_iff split: option.splits)
  have e2: "(cfg ++ rendered shortest m)(k \<mapsto> Sprintf_v shortest v)
              = cfg ++ rendered shortest (kv # m)"
    by (auto simp: rendered_def kv map_add_def fun_eq_iff split: option.splits)
  have "store_all shortest cfg (kv # m) = store_all shortest (cfg(k \<mapsto> Sprintf_v shortest v)) m"
    unfolding kv by (rule store_all.simps)
  also have "\<dots> = cfg(k \<mapsto> Sprintf_v shortest v) ++ rendered shortest m"
    by (rule Cons.IH [OF d])
  also note e1
  also note e2
  finally show ?case .
qed

lemma rendered_lookup:
  "rendered shortest m k = map_option (Sprintf_v shortest) (map_of m k)"
  by (induction m) (auto simp: rendered_def)

lemma LoadConfig_success:
  assumes "LoadConfig sh r now rcm = (None, rcm')"
  obtains raw m where "r (serviceName rcm) = Inr raw" "Unmarshal raw = Inr m"
    "rcm' = rcm\<lparr>config := config rcm ++ rendered sh m, updatedAt := now\<rparr>"
proof -
  from assms obtain raw where raw: "r (serviceName rcm) = Inr raw"
    by (auto simp: LoadConfig_def split: sum.splits)
  with assms obtain m where m: "Unmarshal raw = Inr m"
    by (auto simp: LoadConfig_def split: sum.splits)
  from m have "distinct (map fst m)" by (rule Unmarshal_distinct)
  then have "store_all sh (config rcm) m = config rcm ++ rendered sh m"
    by (rule store_all_map_add)
  with assms raw m have "rcm' = rcm\<lparr>config := config rcm ++ rendered sh m, updatedAt := now\<rparr>"
    by (simp add: LoadConfig_def)
  with raw m show thesis by (rule that)
qed

lemma LoadConfig_decoded:
  assumes "r (serviceName rcm) = Inr raw" and "Unmarshal raw = Inr m"
  shows "LoadConfig sh r now rcm
           = (None, rcm\<lparr>config := config rcm ++ rendered sh m, updatedAt := now\<rparr>)"
proof -
  from assms(2) have "distinct (map fst m)" by (rule Unmarshal_distinct)
  then have "store_all sh (config rcm) m = config rcm ++ rendered sh m"
    by (rule store_all_map_add)
  with assms show ?thesis by (simp add: LoadConfig_def)
qed

subsection \<open>Evaluation of the scenarios\<close>

lemmas json_eval =
  quote_def backslash_def is_space_def is_hex_def hex_val_def digits_val_def is_digit_def
  digit_val_def is_escape_def scan_number_def byte_at_def utf8_len_def RuneError_def
  EncodeRune_def getu4_def utf16_DecodeRune_def unquote.simps next_token_def lex.simps
  maxNestingDepth_def checkValid_def make_map_def float64_overflow_def Unmarshal_def
  char_of_def bit_Suc_0_iff

lemmas format_eval =
  format_float64_def float64_digits_def exact_int_def strip_zeros_def decimal_digits.simps
  formatDigits_def fmtE_def fmtF_def digit_char_def char_of_def bit_Suc_0_iff

lemma Unmarshal_test_config:
  "Unmarshal test_config_json =
     Inr [(''bool_key'', VBool True), (''duration_key'', VString ''5s''),
          (''float_key'', VFloat64 False 314 (- 2)), (''int_key'', VFloat64 False 42 0),
          (''string_key'', VString ''test_value'')]"
  unfolding test_config_json_def by (simp add: json_eval)

lemma Unmarshal_invalid_json: "Unmarshal ''invalid json'' = Inl SyntaxError"
  by (simp add: json_eval)

lemma Unmarshal_fresh: \<open>Unmarshal ''{"fresh":7}'' = Inr [(''fresh'', VFloat64 False 7 0)]\<close>
  by (simp add: json_eval)

lemma Unmarshal_big: \<open>Unmarshal ''{"big":10000000}'' = Inr [(''big'', VFloat64 False 10000000 0)]\<close>
  by (simp add: json_eval)

lemma format_42: "format_float64 sh False 42 0 = ''42''"
  by (simp add: format_eval)

lemma format_7: "format_float64 sh False 7 0 = ''7''"
  by (simp add: format_eval)

lemma format_big: "format_float64 sh False 10000000 0 = ''1e+07''"
  by (simp add: format_eval)

section \<open>Properties of the rendering of numbers\<close>

lemma e_not_digit: "\<not> is_digit (CHR ''e'')"
  by (simp add: is_digit_def)

lemma e_not_plain:
  assumes "CHR ''e'' \<in> set (tl s)"
  shows "\<not> plain_decimal s"
proof (cases s)
  case Nil
  then show ?thesis by (simp add: plain_decimal_def)
next
  case (Cons c r)
  with assms have "CHR ''e'' \<in> set r" by simp
  then have "\<not> list_all is_digit r"
    using e_not_digit by (auto simp: list_all_iff)
  with Cons show ?thesis by (simp add: plain_decimal_def)
qed

lemma fmtE_not_plain: "\<not> plain_decimal (fmtE neg ds dp prec)"
proof -
  have "CHR ''e'' \<in> set (tl (fmtE neg ds dp prec))"
    by (simp add: fmtE_def Let_def)
  then show ?thesis by (rule e_not_plain)
qed

lemma decimal_digits_length_lower: "10 ^ k \<le> n \<Longrightarrow> k < length (decimal_digits n)"
proof (induction k arbitrary: n)
  case 0
  then have "n \<noteq> 0" by simp
  then show ?case by (subst decimal_digits.simps) simp
next
  case (Suc k)
  then have "10 ^ k \<le> n div 10" by simp
  then have "k < length (decimal_digits (n div 10))" by (rule Suc.IH)
  moreover from Suc.prems have "n \<noteq> 0" by (cases "n = 0") simp_all
  ultimately show ?case using \<open>n \<noteq> 0\<close> by (subst decimal_digits.simps) simp
qed

lemma decimal_digits_length_upper: "n < 10 ^ k \<Longrightarrow> length (decimal_digits n) \<le> k"
proof (induction k arbitrary: n)
  case 0
  then have "n = 0" by simp
  then show ?case by (subst decimal_digits.simps) simp
next
  case (Suc k)
  then have "n div 10 < 10 ^ k" by (simp add: less_mult_imp_div_less mult.commute)
  then have "length (decimal_digits (n div 10)) \<le> k" by (rule Suc.IH)
  then show ?case by (subst decimal_digits.simps) simp
qed

lemma large_integer_not_plain:
  assumes "exact_int mant exp10 = Some i" and "10 ^ 6 \<le> i" and "i < 2 ^ 53"
  shows "\<not> plain_decimal (format_float64 sh neg mant exp10)"
proof -
  from assms(2) have "6 < length (decimal_digits i)" by (rule decimal_digits_length_lower)
  then have "formatDigits neg (strip_zeros (decimal_digits i)) (int (length (decimal_digits i)))
               = fmtE neg (strip_zeros (decimal_digits i)) (int (length (decimal_digits i)))
                   (length (strip_zeros (decimal_digits i)) - 1)"
    by (simp add: formatDigits_def Let_def)
  with assms(1,3) show ?thesis
    by (simp add: format_float64_def float64_digits_def fmtE_not_plain)
qed

lemma digit_cases: "d < 10 \<Longrightarrow> d \<in> set [0, 1, 2, 3, 4, 5, 6, 7, 8, 9 :: nat]"
  by (simp, arith)

lemma digit_char_digit:
  assumes "d < 10"
  shows "is_digit (digit_char d) \<and> digit_val (digit_char d) = d \<and>
         digit_char d \<noteq> CHR ''-'' \<and> digit_char d \<noteq> CHR ''+''"
  using digit_cases [OF assms]
  by (auto simp: digit_char_def is_digit_def digit_val_def char_of_def bit_Suc_0_iff)

lemma decimal_digits_lt10: "d \<in> set (decimal_digits n) \<Longrightarrow> d < 10"
proof (induction n arbitrary: d rule: decimal_digits.induct)
  case (1 n)
  show ?case
  proof (cases "n = 0")
    case True
    with "1.prems" show ?thesis by (simp add: decimal_digits.simps)
  next
    case False
    with "1.prems" have "d \<in> set (decimal_digits (n div 10)) \<or> d = n mod 10"
      by (subst (asm) decimal_digits.simps) auto
    with "1.IH" [OF False] show ?thesis by auto
  qed
qed

lemma decimal_digits_value: "foldl (\<lambda>a d. a * 10 + d) 0 (decimal_digits n) = n"
proof (induction n rule: decimal_digits.induct)
  case (1 n)
  show ?case
  proof (cases "n = 0")
    case True
    then show ?thesis by (simp add: decimal_digits.simps)
  next
    case False
    with "1.IH" show ?thesis by (subst decimal_digits.simps) simp
  qed
qed

lemma Atoi_fast_digit_chars:
  "\<forall>d \<in> set ds. d < 10 \<Longrightarrow>
   Atoi_fast a (map digit_char ds) = Some (foldl (\<lambda>a d. a * 10 + d) a ds)"
  by (induction ds arbitrary: a) (simp_all add: digit_char_digit)

lemma Atoi_fast_decimal_digits: "Atoi_fast 0 (map digit_char (decimal_digits n)) = Some n"
  using Atoi_fast_digit_chars [of "decimal_digits n" 0]
  by (simp add: decimal_digits_lt10 decimal_digits_value)

lemma takeWhile_replicate: "takeWhile (\<lambda>d. d = x) ds = replicate (length (takeWhile (\<lambda>d. d = x) ds)) x"
  by (induction ds) auto

lemma strip_zeros_restore:
  "strip_zeros ds @ replicate (length ds - length (strip_zeros ds)) 0 = ds"
proof -
  let ?t = "takeWhile (\<lambda>d. d = 0) (rev ds)"
  have "rev (strip_zeros ds @ rev ?t) = ?t @ dropWhile (\<lambda>d. d = 0) (rev ds)"
    by (simp add: strip_zeros_def)
  also have "\<dots> = rev ds" by simp
  finally have "rev (strip_zeros ds @ rev ?t) = rev ds" .
  then have ds: "ds = strip_zeros ds @ rev ?t" by (simp only: rev_is_rev_conv)
  have "rev ?t = replicate (length ?t) 0"
    by (subst takeWhile_replicate) simp
  moreover from ds have "length ?t = length ds - length (strip_zeros ds)"
    by (metis add_diff_cancel_left' length_append length_rev)
  ultimately have "strip_zeros ds @ replicate (length ds - length (strip_zeros ds)) 0
                     = strip_zeros ds @ rev ?t"
    by simp
  with ds show ?thesis by simp
qed

lemma strip_zeros_length: "length (strip_zeros ds) \<le> length ds"
  by (metis le_add1 length_append strip_zeros_restore)

lemma small_integer_rendering:
  assumes "exact_int mant exp10 = Some i" and "i < 10 ^ 6"
  shows "format_float64 sh neg mant exp10
           = (if neg then ''-'' else []) @
             (if i = 0 then ''0'' else map digit_char (decimal_digits i))"
proof -
  let ?dd = "decimal_digits i"
  let ?ds = "strip_zeros ?dd"
  from assms(2) have "i < 2 ^ 53" by simp
  with assms(1) have f: "format_float64 sh neg mant exp10 = formatDigits neg ?ds (int (length ?dd))"
    by (simp add: format_float64_def float64_digits_def)
  from assms(2) have up: "length ?dd \<le> 6" by (rule decimal_digits_length_upper)
  have le: "length ?ds \<le> length ?dd" by (rule strip_zeros_length)
  from up le have g: "formatDigits neg ?ds (int (length ?dd)) = fmtF neg ?ds (int (length ?dd)) 0"
    by (simp add: formatDigits_def Let_def)
  show ?thesis
  proof (cases "i = 0")
    case True
    then have "?dd = []" by (simp add: decimal_digits.simps)
    with f g True show ?thesis by (simp add: fmtF_def strip_zeros_def)
  next
    case False
    then have "10 ^ 0 \<le> i" by simp
    then have pos: "0 < length ?dd" by (rule decimal_digits_length_lower)
    have "map digit_char ?ds @ replicate (length ?dd - length ?ds) (CHR ''0'')
            = map digit_char (?ds @ replicate (length ?dd - length ?ds) 0)"
      by (simp add: digit_char_def char_of_def bit_Suc_0_iff)
    also have "\<dots> = map digit_char ?dd" by (simp only: strip_zeros_restore)
    finally have "fmtF neg ?ds (int (length ?dd)) 0
                    = (if neg then ''-'' else []) @ map digit_char ?dd"
      using pos le by (simp add: fmtF_def Let_def min_def)
    with f g False show ?thesis by simp
  qed
qed

lemma Atoi_decimal_text:
  assumes "i < 10 ^ 17"
  shows "Atoi ((if neg then ''-'' else []) @
               (if i = 0 then ''0'' else map digit_char (decimal_digits i)))
           = Inr (if neg then - int i else int i)"
proof (cases "i = 0")
  case True
  then show ?thesis by (simp add: Atoi_def is_digit_def digit_val_def)
next
  case False
  let ?dd = "decimal_digits i"
  from False have "10 ^ 0 \<le> i" by simp
  then have pos: "0 < length ?dd" by (rule decimal_digits_length_lower)
  then obtain d0 rest where dd: "?dd = d0 # rest" by (cases ?dd) auto
  then have "d0 < 10" using decimal_digits_lt10 [of d0 i] by simp
  then have d0: "digit_char d0 \<noteq> CHR ''-''" "digit_char d0 \<noteq> CHR ''+''"
    by (simp_all add: digit_char_digit)
  from assms have up: "length ?dd \<le> 17" by (rule decimal_digits_length_upper)
  have fast: "Atoi_fast 0 (map digit_char ?dd) = Some i" by (rule Atoi_fast_decimal_digits)
  show ?thesis
  proof (cases neg)
    case True
    with False up pos fast show ?thesis
      by (simp add: Atoi_def Let_def)
  next
    case nn: False
    from fast dd have "Atoi_fast 0 (digit_char d0 # map digit_char rest) = Some i" by simp
    with nn False up dd d0 show ?thesis
      by (simp add: Atoi_def Let_def del: Atoi_fast.simps)
  qed
qed

lemma Atoi_small_integer:
  assumes "i < 10 ^ 6"
  shows "Atoi ((if neg then ''-'' else []) @
               (if i = 0 then ''0'' else map digit_char (decimal_digits i)))
           = Inr (if neg then - int i else int i)"
proof -
  from assms have "i < 10 ^ 17" by simp
  then show ?thesis by (rule Atoi_decimal_text)
qed

lemma Atoi_Itoa:
  assumes "abs i < 10 ^ 17"
  shows "Atoi (Itoa i) = Inr i"
proof -
  from assms have "nat (abs i) < 10 ^ 17" by simp
  then have "Atoi ((if i < 0 then ''-'' else []) @
               (if nat (abs i) = 0 then ''0'' else map digit_char (decimal_digits (nat (abs i)))))
           = Inr (if i < 0 then - int (nat (abs i)) else int (nat (abs i)))"
    by (rule Atoi_decimal_text)
  moreover have "(nat (abs i) = 0) = (i = 0)" by simp
  moreover have "(if i < 0 then - int (nat (abs i)) else int (nat (abs i))) = i" by simp
  ultimately show ?thesis by (simp only: Itoa_def)
qed

section \<open>The parsers on valid text\<close>

subsection \<open>Integers\<close>

lemma foldl_dstep_ge: "n \<le> foldl (\<lambda>n c. n * 10 + digit_val c) n ds"
proof (induction ds arbitrary: n)
  case Nil
  then show ?case by simp
next
  case (Cons c ds)
  have "n \<le> n * 10 + digit_val c" by simp
  also have "\<dots> \<le> foldl (\<lambda>n c. n * 10 + digit_val c) (n * 10 + digit_val c) ds"
    by (rule Cons.IH)
  finally show ?case by simp
qed

lemma Atoi_fast_value:
  "list_all is_digit ds \<Longrightarrow> Atoi_fast n ds = Some (foldl (\<lambda>n c. n * 10 + digit_val c) n ds)"
  by (induction ds arbitrary: n) simp_all

lemma ParseUint_loop_value:
  assumes "list_all is_digit ds" and "n < 2 ^ 64"
  shows "ParseUint_loop n ds =
           (if foldl (\<lambda>n c. n * 10 + digit_val c) n ds < 2 ^ 64
            then Inr (foldl (\<lambda>n c. n * 10 + digit_val c) n ds) else Inl ErrRange)"
  using assms
proof (induction ds arbitrary: n)
  case Nil
  then show ?case by simp
next
  case (Cons c ds)
  let ?n' = "n * 10 + digit_val c"
  let ?v = "foldl (\<lambda>n c. n * 10 + digit_val c) ?n' ds"
  from Cons.prems have dc: "is_digit c" and dds: "list_all is_digit ds" by simp_all
  have ge: "?n' \<le> ?v" by (rule foldl_dstep_ge)
  show ?case
  proof (cases "n \<ge> (2 ^ 64 - 1) div 10 + 1")
    case True
    then have "(2::nat) ^ 64 \<le> n * 10" by simp
    with ge have "\<not> ?v < 2 ^ 64" by simp
    with True dc show ?thesis by simp
  next
    case small: False
    show ?thesis
    proof (cases "?n' > 2 ^ 64 - 1")
      case True
      with ge have "\<not> ?v < 2 ^ 64" by simp
      with small True dc show ?thesis by simp
    next
      case False
      then have "?n' < 2 ^ 64" by simp
      with False small dc Cons.IH [OF dds, of ?n'] show ?thesis by simp
    qed
  qed
qed


lemma digits_val_foldl: "digits_val ds = foldl (\<lambda>n c. n * 10 + digit_val c) 0 ds"
  by (simp add: digits_val_def)

lemma ParseUint_value:
  assumes "list_all is_digit ds" and "ds \<noteq> []"
  shows "ParseUint ds = (if digits_val ds < 2 ^ 64 then Inr (digits_val ds) else Inl ErrRange)"
  using assms ParseUint_loop_value [of ds 0] by (simp add: ParseUint_def digits_val_foldl)

lemma digits_val_bound: "list_all is_digit ds \<Longrightarrow> digits_val ds < 10 ^ length ds"
proof (induction ds rule: rev_induct)
  case Nil
  then show ?case by (simp add: digits_val_def)
next
  case (snoc c ds)
  then have "digits_val ds < 10 ^ length ds" and "is_digit c" by simp_all
  moreover from \<open>is_digit c\<close> have "digit_val c \<le> 9"
    by (auto simp: is_digit_def digit_val_def less_eq_char_def)
  ultimately have "digits_val ds * 10 + digit_val c < 10 ^ length ds * 10" by simp
  then show ?case by (simp add: digits_val_def)
qed

lemma ParseInt_valid:
  assumes "valid_int_text s"
  shows "ParseInt s = Inr (int_of_text s)"
proof -
  from assms have pd: "plain_decimal s"
    and lo: "- (2 ^ 63) \<le> int_of_text s" and hi: "int_of_text s < 2 ^ 63"
    by (simp_all add: valid_int_text_def)
  from pd obtain c r where s: "s = c # r"
    by (cases s) (simp_all add: plain_decimal_def)
  consider (minus) "c = CHR ''-''" | (plus) "c = CHR ''+''"
    | (none) "c \<noteq> CHR ''-''" "c \<noteq> CHR ''+''" by blast
  then show ?thesis
  proof cases
    case minus
    with pd s have d: "list_all is_digit r" and ne: "r \<noteq> []"
      by (auto simp: plain_decimal_def)
    from minus s have v: "int_of_text s = - int (digits_val r)"
      by (simp add: int_of_text_def)
    with lo have b: "digits_val r \<le> 2 ^ 63" by simp
    then have "digits_val r < 2 ^ 64" by simp
    with d ne have "ParseUint r = Inr (digits_val r)" by (simp add: ParseUint_value)
    with minus s b show ?thesis unfolding v ParseInt_def by (simp add: Let_def)
  next
    case plus
    with pd s have d: "list_all is_digit r" and ne: "r \<noteq> []"
      by (auto simp: plain_decimal_def)
    from plus s have v: "int_of_text s = int (digits_val r)"
      by (simp add: int_of_text_def)
    with hi have b: "digits_val r < 2 ^ 63" by simp
    then have "digits_val r < 2 ^ 64" by simp
    with d ne have "ParseUint r = Inr (digits_val r)" by (simp add: ParseUint_value)
    with plus s b show ?thesis unfolding v ParseInt_def by (simp add: Let_def)
  next
    case none
    with pd s have d: "list_all is_digit s" and ne: "s \<noteq> []"
      by (auto simp: plain_decimal_def)
    from none s have v: "int_of_text s = int (digits_val s)"
      by (simp add: int_of_text_def)
    with hi have b: "digits_val s < 2 ^ 63" by simp
    then have "digits_val s < 2 ^ 64" by simp
    with d ne have pu: "ParseUint s = Inr (digits_val s)" by (simp add: ParseUint_value)
    have "ParseInt (c # r) = Inr (int (digits_val (c # r)))"
      using none b pu unfolding s ParseInt_def by (simp add: Let_def)
    with v s show ?thesis by simp
  qed
qed

lemma Atoi_valid:
  assumes "valid_int_text s"
  shows "Atoi s = Inr (int_of_text s)"
proof -
  from assms have pd: "plain_decimal s" by (simp add: valid_int_text_def)
  from pd obtain c r where s: "s = c # r"
    by (cases s) (simp_all add: plain_decimal_def)
  show ?thesis
  proof (cases "length s < 19")
    case False
    with s assms show ?thesis by (simp add: Atoi_def ParseInt_valid)
  next
    case True
    show ?thesis
    proof (cases "c = CHR ''-'' \<or> c = CHR ''+''")
      case sg: True
      with pd s have d: "list_all is_digit r" and ne: "r \<noteq> []"
        by (auto simp: plain_decimal_def)
      from d have f: "Atoi_fast 0 r = Some (digits_val r)"
        by (simp add: Atoi_fast_value digits_val_foldl)
      from sg s have v: "int_of_text s = (if c = CHR ''-'' then - int (digits_val r) else int (digits_val r))"
        by (auto simp: int_of_text_def)
      from ne have l: "\<not> length r < 1" by (cases r) simp_all
      from True s sg f l show ?thesis
        unfolding v Atoi_def by (simp add: Let_def)
    next
      case ns: False
      with pd s have d: "list_all is_digit s"
        by (auto simp: plain_decimal_def)
      then have f: "Atoi_fast 0 s = Some (digits_val s)"
        by (simp add: Atoi_fast_value digits_val_foldl)
      from ns s have v: "int_of_text s = int (digits_val s)"
        by (auto simp: int_of_text_def)
      from True ns f show ?thesis
        unfolding v Atoi_def s [symmetric] by (simp add: s Let_def del: Atoi_fast.simps)
    qed
  qed
qed

subsection \<open>Durations\<close>

lemma digit_val_le9: "is_digit c \<Longrightarrow> digit_val c \<le> 9"
  by (auto simp: is_digit_def digit_val_def less_eq_char_def)

lemma leadingInt_digits:
  assumes "list_all is_digit w" and "r = [] \<or> \<not> is_digit (hd r)"
    and "foldl (\<lambda>n c. n * 10 + digit_val c) x w \<le> 2 ^ 63"
  shows "leadingInt x (w @ r) = Some (foldl (\<lambda>n c. n * 10 + digit_val c) x w, r)"
  using assms
proof (induction w arbitrary: x)
  case Nil
  then show ?case by (cases r) auto
next
  case (Cons c w)
  let ?x' = "x * 10 + digit_val c"
  from Cons.prems have dc: "is_digit c" and dw: "list_all is_digit w" by simp_all
  have "?x' \<le> foldl (\<lambda>n c. n * 10 + digit_val c) ?x' w" by (rule foldl_dstep_ge)
  with Cons.prems(3) have b: "?x' \<le> 2 ^ 63" by simp
  then have "x * 10 \<le> 2 ^ 63" by simp
  then have x: "\<not> x > 2 ^ 63 div 10" by simp
  from Cons.prems have "leadingInt ?x' (w @ r) = Some (foldl (\<lambda>n c. n * 10 + digit_val c) ?x' w, r)"
    using Cons.IH [OF dw, of ?x'] by simp
  with dc x b show ?case by simp
qed

lemma leadingFraction_digits:
  assumes "list_all is_digit fr" and "r = [] \<or> \<not> is_digit (hd r)"
    and "x < 10 ^ j" and "j + length fr \<le> 18"
  shows "leadingFraction x k False (fr @ r)
           = (foldl (\<lambda>n c. n * 10 + digit_val c) x fr, k + length fr, r)"
  using assms
proof (induction fr arbitrary: x k j)
  case Nil
  then show ?case by (cases r) auto
next
  case (Cons c fr)
  let ?x' = "x * 10 + digit_val c"
  from Cons.prems have dc: "is_digit c" and dfr: "list_all is_digit fr" by simp_all
  from Cons.prems have j: "j \<le> 17" by simp
  then have "(10::nat) ^ j \<le> 10 ^ 17" by (rule power_increasing) simp
  with Cons.prems(3) have x17: "x < 10 ^ 17" by simp
  then have c1: "\<not> x > (2 ^ 63 - 1) div 10" by simp
  from dc have "digit_val c \<le> 9" by (rule digit_val_le9)
  with Cons.prems(3) have x': "?x' < 10 ^ Suc j" by simp
  from x17 \<open>digit_val c \<le> 9\<close> have c2: "\<not> ?x' > 2 ^ 63" by simp
  from Cons.prems have "Suc j + length fr \<le> 18" by simp
  from Cons.IH [OF dfr Cons.prems(2) x' this, of "Suc k"]
  have "leadingFraction ?x' (Suc k) False (fr @ r)
          = (foldl (\<lambda>n c. n * 10 + digit_val c) ?x' fr, Suc k + length fr, r)" .
  with dc c1 c2 show ?case by simp
qed

lemma unitMap_Some:
  assumes "unitMap u = Some unit"
  shows "u \<noteq> [] \<and> list_all unit_char u \<and> 1 \<le> unit"
proof -
  from assms have "u \<in> set [''ns'', ''us'', [char_of (0xC2::nat), char_of (0xB5::nat), CHR ''s''],
      [char_of (0xCE::nat), char_of (0xBC::nat), CHR ''s''], ''ms'', ''s'', ''m'', ''h'']"
    by (simp add: unitMap_def split: if_splits)
  then have "u \<noteq> [] \<and> list_all unit_char u"
    by (auto simp: unit_char_def is_digit_def char_of_def bit_Suc_0_iff)
  moreover from assms have "1 \<le> unit"
    by (auto simp: unitMap_def Hour_def Minute_def Second_def Millisecond_def Microsecond_def
          Nanosecond_def split: if_splits)
  ultimately show ?thesis by simp
qed

lemma takeWhile_unit:
  assumes "list_all unit_char u" and "r = [] \<or> \<not> unit_char (hd r)"
  shows "takeWhile unit_char (u @ r) = u \<and> dropWhile unit_char (u @ r) = r"
proof -
  from assms(2) have "takeWhile unit_char r = [] \<and> dropWhile unit_char r = r"
    by (cases r) auto
  with assms(1) show ?thesis
    by (induction u) simp_all
qed


lemma ParseDuration_group_unfold:
  assumes "s \<noteq> []"
  shows "ParseDuration_group frac s =
     (if \<not> (hd s = CHR ''.'' \<or> is_digit (hd s)) then Inl InvalidDuration
      else case leadingInt 0 s of
        None \<Rightarrow> Inl InvalidDuration
      | Some (v, s1) \<Rightarrow>
          (let pre = (length s \<noteq> length s1);
               has_dot = (case s1 of c1 # r1 \<Rightarrow> c1 = CHR ''.'' | [] \<Rightarrow> False);
               (f, k, s2) = (if has_dot then leadingFraction 0 0 False (tl s1)
                             else (0, 0, s1));
               post = (has_dot \<and> length (tl s1) \<noteq> length s2)
           in if \<not> pre \<and> \<not> post then Inl InvalidDuration
              else
                (let u = takeWhile unit_char s2; s3 = dropWhile unit_char s2
                 in if u = [] then Inl MissingUnit
                    else case unitMap u of
                      None \<Rightarrow> Inl (UnknownUnit u)
                    | Some unit \<Rightarrow>
                        if v > 2 ^ 63 div unit then Inl InvalidDuration
                        else if f > 0 then
                          (let v2 = (v * unit + frac f unit k) mod 2 ^ 64
                           in if v2 > 2 ^ 63 then Inl InvalidDuration
                              else Inr (v2, s3))
                        else Inr (v * unit, s3))))"
proof -
  from assms obtain c t where s: "s = c # t" by (cases s) auto
  show ?thesis
    unfolding ParseDuration_group_def s by (simp only: list.case list.sel)
qed

lemma ParseDuration_group_ok:
  assumes ok: "group_ok (w, fr, u)" and r: "r = [] \<or> \<not> unit_char (hd r)"
    and b: "group_value frac (w, fr, u) \<le> 2 ^ 63 - 1"
  shows "ParseDuration_group frac (group_text (w, fr, u) @ r)
           = Inr (group_value frac (w, fr, u), r)"
proof -
  from ok obtain unit where um: "unitMap u = Some unit"
    by (auto simp: group_ok_def)
  from unitMap_Some [OF um] have une: "u \<noteq> []" and uc: "list_all unit_char u" and u1: "1 \<le> unit"
    by simp_all
  from ok have dw: "list_all is_digit w" and dfr: "list_all is_digit fr"
    and lfr: "length fr \<le> 18" and ne: "w \<noteq> [] \<or> fr \<noteq> []"
    by (simp_all add: group_ok_def)
  let ?W = "digits_val w" and ?F = "digits_val fr"
  from b um have b': "?W * unit + (if ?F > 0 then frac ?F unit (length fr) else 0) \<le> 2 ^ 63 - 1"
    by (simp add: group_value_def)
  then have Wu: "?W * unit \<le> 2 ^ 63 - 1" by simp
  with u1 have "?W * 1 \<le> 2 ^ 63 - 1"
    by (meson le_trans mult_le_mono2)
  then have W: "?W \<le> 2 ^ 63" by simp
  from une uc have hu: "\<not> is_digit (hd u) \<and> hd u \<noteq> CHR ''.''"
    by (cases u) (auto simp: unit_char_def)
  have urnd: "u @ r = [] \<or> \<not> is_digit (hd (u @ r))"
    using hu une by simp
  have lf: "leadingFraction 0 0 False (fr @ u @ r) = (?F, length fr, u @ r)"
    using leadingFraction_digits [OF dfr urnd, of 0 0 0] lfr by (simp add: digits_val_foldl)
  have tw: "takeWhile unit_char (u @ r) = u" and dw': "dropWhile unit_char (u @ r) = r"
    using takeWhile_unit [OF uc r] by simp_all
  from Wu u1 have c1: "\<not> ?W > 2 ^ 63 div unit"
    by (simp add: less_eq_div_iff_mult_less_eq not_less)
  show ?thesis
  proof (cases "fr = []")
    case True
    with ne have wne: "w \<noteq> []" by simp
    let ?s = "w @ u @ r"
    from True have F0: "?F = 0" by (simp add: digits_val_def)
    from hu une have hd1: "(case u @ r of c1 # r1 \<Rightarrow> c1 = CHR ''.'' | [] \<Rightarrow> False) = False"
      by (cases u) auto
    have li: "leadingInt 0 ?s = Some (?W, u @ r)"
      using leadingInt_digits [OF dw urnd, of 0] W by (simp add: digits_val_foldl)
    from wne dw have h: "hd ?s = CHR ''.'' \<or> is_digit (hd ?s)" by (cases w) simp_all
    from wne have sne: "?s \<noteq> []" and pre: "length ?s \<noteq> length (u @ r)" by simp_all
    have "ParseDuration_group frac ?s = Inr (?W * unit, r)"
      unfolding ParseDuration_group_unfold [OF sne]
      using h li hd1 pre une tw dw' um c1
      by (simp add: Let_def del: length_append)
    with True F0 um show ?thesis
      by (simp add: group_text_def group_value_def)
  next
    case False
    let ?s1 = "CHR ''.'' # fr @ u @ r"
    let ?s = "w @ ?s1"
    have s1nd: "?s1 = [] \<or> \<not> is_digit (hd ?s1)"
      by (simp add: is_digit_def)
    have li: "leadingInt 0 ?s = Some (?W, ?s1)"
      using leadingInt_digits [OF dw s1nd, of 0] W by (simp add: digits_val_foldl)
    from dw have h: "hd ?s = CHR ''.'' \<or> is_digit (hd ?s)" by (cases w) simp_all
    have sne: "?s \<noteq> []" by simp
    from False have post: "length (fr @ u @ r) \<noteq> length (u @ r)" by simp
    show ?thesis
    proof (cases "?F > 0")
      case True
      with b' have v2: "(?W * unit + frac ?F unit (length fr)) mod 2 ^ 64
                          = ?W * unit + frac ?F unit (length fr)"
        and v2': "\<not> ?W * unit + frac ?F unit (length fr) > 2 ^ 63"
        by simp_all
      have "ParseDuration_group frac ?s
              = Inr (?W * unit + frac ?F unit (length fr), r)"
        unfolding ParseDuration_group_unfold [OF sne]
        using h li lf post une tw dw' um c1 True v2 v2'
        by (simp add: Let_def del: length_append)
      with False True um show ?thesis
        by (simp add: group_text_def group_value_def)
    next
      case F0: False
      have "ParseDuration_group frac ?s = Inr (?W * unit, r)"
        unfolding ParseDuration_group_unfold [OF sne]
        using h li lf post une tw dw' um c1 F0
        by (simp add: Let_def del: length_append)
      with False F0 um show ?thesis
        by (simp add: group_text_def group_value_def)
    qed
  qed
qed


lemma group_text_hd:
  assumes "group_ok g"
  shows "group_text g \<noteq> [] \<and> (hd (group_text g) = CHR ''.'' \<or> is_digit (hd (group_text g)))
           \<and> 2 \<le> length (group_text g)"
proof -
  obtain w fr u where g: "g = (w, fr, u)" by (cases g) auto
  from assms g obtain unit where um: "unitMap u = Some unit"
    by (auto simp: group_ok_def)
  from unitMap_Some [OF um] have une: "u \<noteq> []" by simp
  then have lu: "1 \<le> length u" by (cases u) simp_all
  from assms g have dw: "list_all is_digit w" and ne: "w \<noteq> [] \<or> fr \<noteq> []"
    by (simp_all add: group_ok_def)
  show ?thesis
  proof (cases w)
    case Nil
    with ne g lu show ?thesis by (simp add: group_text_def)
  next
    case (Cons a w')
    with dw g lu show ?thesis by (simp add: group_text_def)
  qed
qed

lemma groups_text_hd:
  assumes "list_all group_ok gs"
  shows "concat (map group_text gs) = [] \<or> \<not> unit_char (hd (concat (map group_text gs)))"
proof (cases gs)
  case Nil
  then show ?thesis by simp
next
  case (Cons g gs')
  with assms have "group_ok g" by simp
  from group_text_hd [OF this] Cons show ?thesis
    by (auto simp: unit_char_def)
qed

lemma ParseDuration_loop_step:
  assumes "s \<noteq> []" and "ParseDuration_group frac s = Inr (v, s')" and "d + v \<le> 2 ^ 63 - 1"
  shows "ParseDuration_loop frac d s = ParseDuration_loop frac (d + v) s'"
proof -
  from assms(3) have "(d + v) mod 2 ^ 64 = d + v" and "\<not> d + v > 2 ^ 63" by simp_all
  with assms(1,2) show ?thesis
    by (subst ParseDuration_loop.simps) (simp add: Let_def)
qed

lemma ParseDuration_loop_groups:
  assumes "list_all group_ok gs"
    and "d + sum_list (map (group_value frac) gs) \<le> 2 ^ 63 - 1"
  shows "ParseDuration_loop frac d (concat (map group_text gs))
           = Inr (d + sum_list (map (group_value frac) gs))"
  using assms
proof (induction gs arbitrary: d)
  case Nil
  then show ?case by (simp add: ParseDuration_loop.simps)
next
  case (Cons g gs)
  obtain w fr u where g: "g = (w, fr, u)" by (cases g) auto
  let ?r = "concat (map group_text gs)"
  let ?v = "group_value frac g"
  from Cons.prems have ok: "group_ok g" and oks: "list_all group_ok gs" by simp_all
  from Cons.prems(2) have bv: "?v \<le> 2 ^ 63 - 1" and bd: "d + ?v \<le> 2 ^ 63 - 1"
    and bs: "(d + ?v) + sum_list (map (group_value frac) gs) \<le> 2 ^ 63 - 1"
    by simp_all
  from group_text_hd [OF ok] have ne: "group_text g @ ?r \<noteq> []" by simp
  have grp: "ParseDuration_group frac (group_text g @ ?r) = Inr (?v, ?r)"
    using ParseDuration_group_ok [OF ok [unfolded g] groups_text_hd [OF oks] bv [unfolded g]]
    by (simp add: g)
  have "ParseDuration_loop frac d (group_text g @ ?r) = ParseDuration_loop frac (d + ?v) ?r"
    using ne grp bd by (rule ParseDuration_loop_step)
  also have "\<dots> = Inr ((d + ?v) + sum_list (map (group_value frac) gs))"
    using oks bs by (rule Cons.IH)
  finally show ?case by (simp add: add.assoc)
qed

lemma ParseDuration_signed:
  assumes "body \<noteq> []" and "body \<noteq> ''0''"
    and "hd body \<noteq> CHR ''-''" and "hd body \<noteq> CHR ''+''"
    and "ParseDuration_loop frac 0 body = Inr d" and "d \<le> 2 ^ 63 - 1"
    and "sg = [] \<or> sg = ''-'' \<or> sg = ''+''"
  shows "ParseDuration frac (sg @ body) = Inr (if sg = ''-'' then - int d else int d)"
proof -
  from assms(1) obtain c t where ct: "body = c # t" by (cases body) auto
  from assms(6) have nb: "\<not> d > 2 ^ 63 - 1" by simp
  from assms(7) show ?thesis
  proof (elim disjE)
    assume "sg = []"
    with assms(2-5) nb show ?thesis
      unfolding ParseDuration_def ct by (auto simp: Let_def)
  next
    assume "sg = ''-''"
    with assms(1,2,5) show ?thesis
      unfolding ParseDuration_def by (simp add: Let_def)
  next
    assume "sg = ''+''"
    with assms(1,2,5) nb show ?thesis
      unfolding ParseDuration_def by (simp add: Let_def)
  qed
qed

lemma ParseDuration_valid:
  assumes "valid_duration frac sg gs"
  shows "ParseDuration frac (duration_text sg gs) = Inr (duration_value frac sg gs)"
proof -
  let ?body = "concat (map group_text gs)"
  let ?d = "sum_list (map (group_value frac) gs)"
  from assms have sg: "sg = [] \<or> sg = ''-'' \<or> sg = ''+''" and gne: "gs \<noteq> []"
    and oks: "list_all group_ok gs" and b: "?d \<le> 2 ^ 63 - 1"
    by (simp_all add: valid_duration_def)
  from gne obtain g gs' where gs: "gs = g # gs'" by (cases gs) auto
  with oks have "group_ok g" by simp
  from group_text_hd [OF this]
  have "group_text g \<noteq> []"
    and "hd (group_text g) = CHR ''.'' \<or> is_digit (hd (group_text g))"
    and "2 \<le> length (group_text g)"
    by simp_all
  then have bne: "?body \<noteq> []" and hb: "hd ?body = CHR ''.'' \<or> is_digit (hd ?body)"
    and lb: "2 \<le> length ?body"
    unfolding gs by simp_all
  from lb have b0: "?body \<noteq> ''0''" by auto
  from hb have h1: "hd ?body \<noteq> CHR ''-''" and h2: "hd ?body \<noteq> CHR ''+''"
    by (auto simp: is_digit_def)
  have loop: "ParseDuration_loop frac 0 ?body = Inr ?d"
    using ParseDuration_loop_groups [OF oks, of 0 frac] b by simp
  from ParseDuration_signed [OF bne b0 h1 h2 loop b sg] show ?thesis
    by (simp add: duration_text_def duration_value_def)
qed

subsection \<open>Floats\<close>

lemma digit_not_special:
  assumes "is_digit c"
  shows "c \<noteq> CHR ''_''" "c \<noteq> CHR ''.''" "c \<noteq> CHR ''+''" "c \<noteq> CHR ''-''"
    "c \<noteq> CHR ''i''" "c \<noteq> CHR ''I''" "c \<noteq> CHR ''n''" "c \<noteq> CHR ''N''"
    "c \<noteq> CHR ''e''" "c \<noteq> CHR ''E''" "c \<noteq> CHR ''x''" "c \<noteq> CHR ''X''"
    "to_lower c = c"
  using assms by (auto simp: is_digit_def to_lower_def less_eq_char_def)

lemma readMantissa_digits:
  assumes "list_all is_digit ds"
  shows "readMantissa False m fd sawdot sd us (ds @ r)
           = readMantissa False (foldl (\<lambda>n c. n * 10 + digit_val c) m ds)
               (if sawdot then fd + length ds else fd) sawdot (sd \<or> ds \<noteq> []) us r"
  using assms
proof (induction ds arbitrary: m fd sd)
  case Nil
  then show ?case by simp
next
  case (Cons c ds)
  then have dc: "is_digit c" and dds: "list_all is_digit ds" by simp_all
  from digit_not_special [OF dc] have n: "c \<noteq> CHR ''_''" "c \<noteq> CHR ''.''" by simp_all
  show ?case
    using dc n Cons.IH [OF dds, of "m * 10 + digit_val c" "if sawdot then Suc fd else fd" True]
    by simp
qed

lemma readExponent_digits:
  assumes "list_all is_digit ds" and "e < 10 ^ j" and "j + length ds \<le> 5"
  shows "readExponent e us ds = (foldl (\<lambda>n c. n * 10 + digit_val c) e ds, us, [])"
  using assms
proof (induction ds arbitrary: e j)
  case Nil
  then show ?case by simp
next
  case (Cons c ds)
  then have dc: "is_digit c" and dds: "list_all is_digit ds" by simp_all
  from digit_not_special [OF dc] have n: "c \<noteq> CHR ''_''" by simp
  from Cons.prems have "j \<le> 4" by simp
  then have "(10::nat) ^ j \<le> 10 ^ 4" by (rule power_increasing) simp
  with Cons.prems(2) have e4: "e < 10000" by simp
  from dc have "digit_val c \<le> 9" by (rule digit_val_le9)
  with Cons.prems(2) have e': "e * 10 + digit_val c < 10 ^ Suc j" by simp
  from Cons.prems have "Suc j + length ds \<le> 5" by simp
  from Cons.IH [OF dds e' this] dc n e4 show ?case by simp
qed


lemma read_exp_none: "read_exp False dp False [] = Some (dp, False, [])"
  by (simp add: read_exp_def)

lemma read_exp_decimal:
  assumes "ec = CHR ''e'' \<or> ec = CHR ''E''" and "esg = [] \<or> esg = ''-'' \<or> esg = ''+''"
    and "ed \<noteq> []" and "list_all is_digit ed" and "length ed \<le> 5"
  shows "read_exp False dp False (ec # esg @ ed)
           = Some (dp + (if esg = ''-'' then - int (digits_val ed) else int (digits_val ed)),
                   False, [])"
proof -
  from assms(1) have lc: "to_lower ec = CHR ''e''"
    by (auto simp: to_lower_def less_eq_char_def char_of_def bit_Suc_0_iff)
  from assms(3) obtain d ds where ed: "ed = d # ds" by (cases ed) auto
  with assms(4) have dd: "is_digit d" by simp
  from digit_not_special [OF dd] have nd: "d \<noteq> CHR ''+''" "d \<noteq> CHR ''-''" by simp_all
  have re: "readExponent 0 False ed = (digits_val ed, False, [])"
    using readExponent_digits [OF assms(4), of 0 0 False] assms(5)
    by (simp add: digits_val_foldl)
  from assms(2) show ?thesis
  proof (elim disjE)
    assume "esg = []"
    with lc dd nd re [unfolded ed] show ?thesis
      by (simp add: read_exp_def ed)
  next
    assume "esg = ''-''"
    with lc dd re [unfolded ed] show ?thesis
      by (simp add: read_exp_def ed)
  next
    assume "esg = ''+''"
    with lc dd re [unfolded ed] show ?thesis
      by (simp add: read_exp_def ed)
  qed
qed

lemma readMantissa_stop:
  assumes "r = [] \<or> hd r = CHR ''e'' \<or> hd r = CHR ''E''"
  shows "readMantissa False m fd sawdot sd us r = (m, fd, sd, us, r)"
proof (cases r)
  case Nil
  then show ?thesis by simp
next
  case (Cons c t)
  with assms have "c = CHR ''e'' \<or> c = CHR ''E''" by simp
  then have "c \<noteq> CHR ''_''" "c \<noteq> CHR ''.''" "\<not> is_digit c"
    by (auto simp: is_digit_def)
  with Cons show ?thesis by simp
qed

lemma readMantissa_decimal:
  assumes "list_all is_digit ip" and "list_all is_digit fp" and "ip \<noteq> [] \<or> fp \<noteq> []"
    and "r = [] \<or> hd r = CHR ''e'' \<or> hd r = CHR ''E''"
  shows "readMantissa False 0 0 False False False
           (ip @ (if fp = [] then [] else CHR ''.'' # fp) @ r)
           = (digits_val (ip @ fp), length fp, True, False, r)"
proof (cases "fp = []")
  case True
  with assms(3) have "ip \<noteq> []" by simp
  with True show ?thesis
    using readMantissa_digits [OF assms(1), of 0 0 False False False r]
      readMantissa_stop [OF assms(4)]
    by (simp add: digits_val_foldl)
next
  case False
  have "readMantissa False 0 0 False False False (ip @ CHR ''.'' # fp @ r)
          = readMantissa False (digits_val ip) 0 False (ip \<noteq> []) False (CHR ''.'' # fp @ r)"
    using readMantissa_digits [OF assms(1), of 0 0 False False False "CHR ''.'' # fp @ r"]
    by (simp add: digits_val_foldl)
  also have "\<dots> = readMantissa False (digits_val ip) 0 True (ip \<noteq> []) False (fp @ r)"
    by simp
  also have "\<dots> = readMantissa False (digits_val (ip @ fp)) (length fp) True True False r"
    using readMantissa_digits [OF assms(2), of "digits_val ip" 0 True "ip \<noteq> []" False r] False
    by (simp add: digits_val_foldl)
  also have "\<dots> = (digits_val (ip @ fp), length fp, True, False, r)"
    by (rule readMantissa_stop [OF assms(4)])
  finally show ?thesis using False by simp
qed


lemma float_char_lower: "float_char c \<Longrightarrow> to_lower c \<noteq> CHR ''x''"
  by (auto simp: float_char_def is_digit_def to_lower_def less_eq_char_def char_of_def
        bit_Suc_0_iff)

lemma not_hex_prefix:
  assumes "list_all float_char s"
  shows "\<not> hex_prefix s"
proof
  assume "hex_prefix s"
  then have a: "2 < length s \<and> s ! 0 = CHR ''0'' \<and> to_lower (s ! 1) = CHR ''x''"
    by (simp add: hex_prefix_def)
  then have "1 < length s" by simp
  with assms have "float_char (s ! 1)" by (simp add: list_all_length)
  from float_char_lower [OF this] a show False by simp
qed

lemma special_None:
  assumes "s \<noteq> []" and "is_digit (hd s) \<or> hd s = CHR ''.''"
    and "sg = [] \<or> sg = ''-'' \<or> sg = ''+''"
  shows "special (sg @ s) = None"
proof -
  from assms(1) obtain c t where s: "s = c # t" by (cases s) auto
  with assms(2) have c: "is_digit c \<or> c = CHR ''.''" by simp
  then have n: "c \<noteq> CHR ''+''" "c \<noteq> CHR ''-''" "c \<noteq> CHR ''i''" "c \<noteq> CHR ''I''"
    "c \<noteq> CHR ''n''" "c \<noteq> CHR ''N''" "to_lower c \<noteq> CHR ''i''"
    by (auto simp: is_digit_def to_lower_def less_eq_char_def)
  from assms(3) show ?thesis
    using n by (auto simp: special_def s)
qed

lemma readFloat_decimal:
  assumes "s1 \<noteq> []" and "hd s1 \<noteq> CHR ''+''" and "hd s1 \<noteq> CHR ''-''"
    and "\<not> hex_prefix s1"
    and "readMantissa False 0 0 False False False s1 = (m, fd, True, False, s3)"
    and "read_exp False (- int fd) False s3 = Some (ex, False, [])"
    and "sg = [] \<or> sg = ''-'' \<or> sg = ''+''"
  shows "readFloat (sg @ s1) = Some (sg = ''-'', False, m, ex, [])"
proof -
  from assms(1) obtain c t where ct: "s1 = c # t" by (cases s1) auto
  from assms(2,3) ct have c: "c \<noteq> CHR ''+''" "c \<noteq> CHR ''-''" by simp_all
  note f = assms(4,5,6) [unfolded ct]
  from assms(7) show ?thesis
  proof (elim disjE)
    assume "sg = []"
    then show ?thesis
      using c f unfolding readFloat_def ct
      by (simp add: Let_def del: readMantissa.simps)
  next
    assume "sg = ''-''"
    then show ?thesis
      using f unfolding readFloat_def ct
      by (simp add: Let_def del: readMantissa.simps)
  next
    assume "sg = ''+''"
    then show ?thesis
      using f unfolding readFloat_def ct
      by (simp add: Let_def del: readMantissa.simps)
  qed
qed

lemma float_body:
  assumes "float_text_ok sg ip fp ex"
  defines "body \<equiv> ip @ (if fp = [] then [] else CHR ''.'' # fp) @
                    (case ex of None \<Rightarrow> [] | Some (ec, esg, ed) \<Rightarrow> ec # esg @ ed)"
  shows "body \<noteq> []" and "is_digit (hd body) \<or> hd body = CHR ''.''"
    and "list_all float_char body"
proof -
  from assms(1) have dip: "list_all is_digit ip" and dfp: "list_all is_digit fp"
    and ne: "ip \<noteq> [] \<or> fp \<noteq> []"
    by (simp_all add: float_text_ok_def)
  from ne show "body \<noteq> []" by (auto simp: body_def)
  show "is_digit (hd body) \<or> hd body = CHR ''.''"
  proof (cases ip)
    case Nil
    with ne show ?thesis by (simp add: body_def)
  next
    case (Cons a ip')
    with dip show ?thesis by (simp add: body_def)
  qed
  have d: "list_all float_char ds" if "list_all is_digit ds" for ds
    using that by (induction ds) (simp_all add: float_char_def)
  have e: "list_all float_char (case ex of None \<Rightarrow> [] | Some (ec, esg, ed) \<Rightarrow> ec # esg @ ed)"
  proof (cases ex)
    case None
    then show ?thesis by simp
  next
    case (Some t)
    obtain ec esg ed where t: "t = (ec, esg, ed)" by (cases t) auto
    from assms(1) Some t have "ec = CHR ''e'' \<or> ec = CHR ''E''"
      and "esg = [] \<or> esg = ''-'' \<or> esg = ''+''" and "list_all is_digit ed"
      by (simp_all add: float_text_ok_def)
    with d [of ed] Some t show ?thesis
      by (auto simp: float_char_def)
  qed
  from d [OF dip] d [OF dfp] e show "list_all float_char body"
    by (simp add: body_def float_char_def)
qed

lemma ParseFloat_valid:
  assumes ok: "float_text_ok sg ip fp ex" and v: "float_value sg ip fp ex = Some f"
  shows "ParseFloat (float_text sg ip fp ex) = Inr f"
proof -
  let ?et = "case ex of None \<Rightarrow> [] | Some (ec, esg, ed) \<Rightarrow> ec # esg @ ed"
  let ?body = "ip @ (if fp = [] then [] else CHR ''.'' # fp) @ ?et"
  let ?E = "case ex of None \<Rightarrow> 0
            | Some (ec, esg, ed) \<Rightarrow>
                if esg = ''-'' then - int (digits_val ed) else int (digits_val ed)"
  from ok have sg: "sg = [] \<or> sg = ''-'' \<or> sg = ''+''"
    and dip: "list_all is_digit ip" and dfp: "list_all is_digit fp"
    and ne: "ip \<noteq> [] \<or> fp \<noteq> []"
    by (simp_all add: float_text_ok_def)
  note b = float_body [OF ok]
  from b(2) have h: "hd ?body \<noteq> CHR ''+''" "hd ?body \<noteq> CHR ''-''"
    by (auto simp: is_digit_def)
  have et: "?et = [] \<or> hd ?et = CHR ''e'' \<or> hd ?et = CHR ''E''"
    using ok by (auto simp: float_text_ok_def split: option.splits)
  have rm: "readMantissa False 0 0 False False False ?body
              = (digits_val (ip @ fp), length fp, True, False, ?et)"
    using dip dfp ne et by (rule readMantissa_decimal)
  have re: "read_exp False (- int (length fp)) False ?et
              = Some (float_exponent fp ex, False, [])"
  proof (cases ex)
    case None
    then show ?thesis by (simp add: read_exp_none float_exponent_def)
  next
    case (Some t)
    obtain ec esg ed where t: "t = (ec, esg, ed)" by (cases t) auto
    from ok Some t have "ec = CHR ''e'' \<or> ec = CHR ''E''"
      and "esg = [] \<or> esg = ''-'' \<or> esg = ''+''"
      and "ed \<noteq> []" and "list_all is_digit ed" and "length ed \<le> 5"
      by (simp_all add: float_text_ok_def)
    from read_exp_decimal [OF this, of "- int (length fp)"] Some t show ?thesis
      by (simp add: float_exponent_def)
  qed
  have rf: "readFloat (sg @ ?body)
              = Some (sg = ''-'', False, digits_val (ip @ fp), float_exponent fp ex, [])"
    using b(1) h not_hex_prefix [OF b(3)] rm re sg by (rule readFloat_decimal)
  have sp: "special (sg @ ?body) = None"
    using b(1,2) sg by (rule special_None)
  from v obtain m e
    where r: "round_scaled (digits_val (ip @ fp)) 10 (float_exponent fp ex) = Some (m, e)"
      and f: "f = Float64 (sg = ''-'') m e"
    by (auto simp: float_value_def)
  have "ParseFloat (sg @ ?body) = Inr f"
    unfolding ParseFloat_def sp rf using r f by simp
  then show ?thesis by (simp add: float_text_def)
qed

subsection \<open>The text of an integer\<close>

lemma digits_val_digit_chars:
  assumes "\<forall>d \<in> set ds. d < 10"
  shows "foldl (\<lambda>n c. n * 10 + digit_val c) a (map digit_char ds)
           = foldl (\<lambda>a d. a * 10 + d) a ds"
  using assms by (induction ds arbitrary: a) (simp_all add: digit_char_digit)

lemma decimal_digits_text:
  assumes "n \<noteq> 0"
  shows "map digit_char (decimal_digits n) \<noteq> []"
    and "list_all is_digit (map digit_char (decimal_digits n))"
    and "digits_val (map digit_char (decimal_digits n)) = n"
    and "hd (map digit_char (decimal_digits n)) \<noteq> CHR ''-''"
    and "hd (map digit_char (decimal_digits n)) \<noteq> CHR ''+''"
proof -
  let ?ds = "map digit_char (decimal_digits n)"
  from assms show ne: "?ds \<noteq> []"
    by (subst decimal_digits.simps) simp
  show d: "list_all is_digit ?ds"
    by (simp add: list_all_iff decimal_digits_lt10 digit_char_digit)
  show "digits_val ?ds = n"
    using digits_val_digit_chars [of "decimal_digits n" 0]
    by (simp add: digits_val_def decimal_digits_lt10 decimal_digits_value)
  from ne d have "is_digit (hd ?ds)" by (cases ?ds) simp_all
  then show "hd ?ds \<noteq> CHR ''-''" and "hd ?ds \<noteq> CHR ''+''"
    by (auto simp: is_digit_def)
qed

lemma Itoa_valid:
  assumes "- (2 ^ 63) \<le> i" and "i < 2 ^ 63"
  shows "valid_int_text (Itoa i) \<and> int_of_text (Itoa i) = i"
proof -
  consider (zero) "i = 0" | (pos) "0 < i" | (neg) "i < 0" by linarith
  then show ?thesis
  proof cases
    case zero
    then show ?thesis
      by (simp add: Itoa_def valid_int_text_def int_of_text_def plain_decimal_def
            digits_val_def is_digit_def digit_val_def)
  next
    case pos
    let ?ds = "map digit_char (decimal_digits (nat i))"
    from pos have n: "nat i \<noteq> 0" by simp
    note t = decimal_digits_text [OF n]
    from t(1) obtain c r where cr: "?ds = c # r" by (cases ?ds) auto
    with t(4,5) have c: "c \<noteq> CHR ''-''" "c \<noteq> CHR ''+''" by simp_all
    from pos have I: "Itoa i = ?ds" by (simp add: Itoa_def)
    have v: "int_of_text ?ds = i"
      using c t(3) pos unfolding int_of_text_def cr by simp
    have p: "plain_decimal ?ds"
      using c t(2) unfolding plain_decimal_def cr by simp
    from v p assms show ?thesis by (simp add: I valid_int_text_def)
  next
    case neg
    let ?ds = "map digit_char (decimal_digits (nat (- i)))"
    from neg have n: "nat (- i) \<noteq> 0" by simp
    note t = decimal_digits_text [OF n]
    from neg have I: "Itoa i = CHR ''-'' # ?ds" by (simp add: Itoa_def)
    have v: "int_of_text (CHR ''-'' # ?ds) = i"
      using t(3) neg by (simp add: int_of_text_def)
    have p: "plain_decimal (CHR ''-'' # ?ds)"
      using t(1,2) by (simp add: plain_decimal_def)
    from v p assms show ?thesis by (simp add: I valid_int_text_def)
  qed
qed

subsection \<open>Evaluation\<close>

text \<open>
  The facts that evaluate the parsers, the rounding and the descriptions of valid text
  on a given string.
\<close>

lemmas float_eval = ParseFloat_def special_def readFloat_def read_exp_def hex_prefix_def
  underscoreOK_def to_lower_def is_hex_letter_def hex_val_def is_digit_def digit_val_def
  less_eq_char_def char_of_def bit_Suc_0_iff Let_def

lemmas round_eval = round_scaled_def float64_round_def floor_log2_def round_half_even_def
  bit_length.simps Let_def

lemmas unit_defs = Hour_def Minute_def Second_def Millisecond_def Microsecond_def
  Nanosecond_def

lemmas valid_text_eval = valid_int_text_def int_of_text_def plain_decimal_def digits_val_def
  float_text_ok_def float_text_def float_value_def float_exponent_def
  valid_duration_def duration_text_def duration_value_def group_ok_def group_text_def
  group_value_def unitMap_def is_digit_def digit_val_def less_eq_char_def

text \<open>
  \<^verbatim>\<open>ParseFloat\<close> on texts outside the decimal notation: a hexadecimal mantissa with
  an underscore after the prefix (\<open>0x1F.8\<close> times two is 63), underscores between
  digits and elsewhere, the infinities and NaN in any case, a mantissa halfway between
  two \<^verbatim>\<open>float64\<close>, and the negative zero.
\<close>

lemma ParseFloat_hex:
  "ParseFloat ''0X_1F.8P+1'' = Inr (Float64 False 8866461766385664 (- 47))"
  by (simp add: float_eval round_eval)

lemma ParseFloat_hex_no_exponent: "ParseFloat ''0x1F'' = Inl ErrSyntax"
  by (simp add: float_eval round_eval)

lemma ParseFloat_underscore:
  "ParseFloat ''1_000.5'' = Inr (Float64 False 8800491068719104 (- 43))"
  by (simp add: float_eval round_eval)

lemma ParseFloat_bad_underscore: "ParseFloat ''1__0'' = Inl ErrSyntax"
  by (simp add: float_eval round_eval)

lemma ParseFloat_inf: "ParseFloat ''-iNfInItY'' = Inr (Float64_Inf True)"
  by (simp add: float_eval round_eval)

lemma ParseFloat_infin: "ParseFloat ''infin'' = Inl ErrSyntax"
  by (simp add: float_eval round_eval)

lemma ParseFloat_nan: "ParseFloat ''NaN'' = Inr Float64_NaN"
  by (simp add: float_eval round_eval)

lemma ParseFloat_signed_nan: "ParseFloat ''+nan'' = Inl ErrSyntax"
  by (simp add: float_eval round_eval)

lemma ParseFloat_tie:
  "ParseFloat ''9007199254740993'' = Inr (Float64 False 4503599627370496 1)"
  by (simp add: float_eval round_eval)

lemma ParseFloat_neg_zero: "ParseFloat ''-0'' = Inr (Float64 True 0 0)"
  by (simp add: float_eval round_eval)

lemma readExponent_cap: "readExponent 0 False ''100000'' = (10000, False, [])"
  by (simp add: is_digit_def digit_val_def)

text \<open>
  The fraction of a unit is not always the fraction rounded down: eighteen nines after
  the point are a whole nanosecond, because the conversion of \<open>999999999999999999\<close> to
  \<^verbatim>\<open>float64\<close> rounds up to \<open>10^18\<close>.
\<close>

lemma duration_frac_rounds_up: "duration_frac 999999999999999999 1 18 = 1"
  by (simp add: duration_frac_def round_eval)

section \<open>Properties of the getters\<close>

text \<open>
  Claim C2 says that a key holding the stored string \<open>''1''\<close> cannot be read as a
  boolean. \<^verbatim>\<open>GetBool\<close> hands the string to \<^verbatim>\<open>strconv.ParseBool\<close>, which accepts
  \<open>''1''\<close>: the getter returns \<open>True\<close> and no error.
\<close>

theorem GetBool_one_counterexample:
  "config \<lparr>serviceName = ''svc'', config = [''flag'' \<mapsto> ''1''], updatedAt = 0\<rparr> ''flag''
     = Some ''1'' \<and>
   GetBool \<lparr>serviceName = ''svc'', config = [''flag'' \<mapsto> ''1''], updatedAt = 0\<rparr> ''flag''
     = Inr True"
  by (simp add: GetBool_def ParseBool_def)

text \<open>
  Claim C2, amended: \<^verbatim>\<open>GetBool\<close> applies text parsing only. For a key holding the
  string \<open>v\<close> it returns true exactly when \<open>v\<close> is one of \<open>1, t, T, true, TRUE, True\<close>
  (so a stored \<open>''1''\<close> reads as true), false exactly when \<open>v\<close> is one of
  \<open>0, f, F, false, FALSE, False\<close>, and fails with a parse error exactly on every other
  string.
\<close>

theorem GetBool_text_parsing:
  assumes "config rcm key = Some v"
  shows "(v = ''1'' \<longrightarrow> GetBool rcm key = Inr True) \<and>
         (GetBool rcm key = Inr True \<longleftrightarrow>
            v \<in> set [''1'', ''t'', ''T'', ''true'', ''TRUE'', ''True'']) \<and>
         (GetBool rcm key = Inr False \<longleftrightarrow>
            v \<in> set [''0'', ''f'', ''F'', ''false'', ''FALSE'', ''False'']) \<and>
         ((\<exists>e. GetBool rcm key = Inl e \<and> is_ParseError e) \<longleftrightarrow>
            v \<notin> set [''1'', ''t'', ''T'', ''true'', ''TRUE'', ''True'',
                       ''0'', ''f'', ''F'', ''false'', ''FALSE'', ''False''])"
  using assms by (auto simp: GetBool_def ParseBool_def)

theorem GetBool_text_parsing_witness:
  "config \<lparr>serviceName = ''svc'', config = [''flag'' \<mapsto> ''yes''], updatedAt = 0\<rparr> ''flag''
     = Some ''yes'' \<and>
   GetBool \<lparr>serviceName = ''svc'', config = [''flag'' \<mapsto> ''yes''], updatedAt = 0\<rparr> ''flag''
     = Inl (NumError ''ParseBool'' ''yes'' ErrSyntax)"
proof -
  have h: "config \<lparr>serviceName = ''svc'', config = [''flag'' \<mapsto> ''yes''], updatedAt = 0\<rparr>
             ''flag'' = Some ''yes''"
    by simp
  show ?thesis
    using h GetBool_text_parsing [OF h] by (simp add: GetBool_def ParseBool_def)
qed

text \<open>
  Claim C4: for a key present in the snapshot whose stored string is valid text for a
  type, the getter of that type returns the value the text denotes and no error. Valid
  text and its value are those of the section on valid text, which describes them by
  the form of the text:

    \<^item> an integer text is an optional sign and decimal digits that denote a 64-bit
      integer, and \<^verbatim>\<open>GetInt\<close> returns that integer; in particular it reads back the
      decimal text of every 64-bit integer;
    \<^item> a float text in decimal notation denotes the nearest \<^verbatim>\<open>float64\<close>, and
      \<^verbatim>\<open>GetFloat\<close> returns it;
    \<^item> every string is its own value for \<^verbatim>\<open>GetString\<close>;
    \<^item> \<open>1, t, T, true, TRUE, True\<close> are true and \<open>0, f, F, false, FALSE, False\<close> are
      false for \<^verbatim>\<open>GetBool\<close>;
    \<^item> a duration text is a sign and groups of a number and a unit, and
      \<^verbatim>\<open>GetDuration\<close> returns the sum of the groups in nanoseconds; \<open>0\<close> with an
      optional sign is the zero duration.

  Beyond these forms (a hexadecimal float, an infinity) a getter returns whatever its
  parser returns on the stored string.
\<close>

theorem getters_decode_valid_text:
  assumes "config rcm key = Some v"
  shows "(valid_int_text v \<longrightarrow> GetInt rcm key = Inr (int_of_text v)) \<and>
         (- (2 ^ 63) \<le> n \<and> n < 2 ^ 63 \<and> v = Itoa n \<longrightarrow> GetInt rcm key = Inr n) \<and>
         (float_text_ok sg ip fp ex \<and> v = float_text sg ip fp ex \<and>
          float_value sg ip fp ex = Some x \<longrightarrow>
            GetFloat ParseFloat rcm key = Inr x) \<and>
         GetString rcm key = Inr v \<and>
         (v \<in> set [''1'', ''t'', ''T'', ''true'', ''TRUE'', ''True''] \<longrightarrow>
            GetBool rcm key = Inr True) \<and>
         (v \<in> set [''0'', ''f'', ''F'', ''false'', ''FALSE'', ''False''] \<longrightarrow>
            GetBool rcm key = Inr False) \<and>
         (valid_duration duration_frac dsg gs \<and> v = duration_text dsg gs \<longrightarrow>
            GetDuration duration_frac rcm key = Inr (duration_value duration_frac dsg gs)) \<and>
         (v \<in> set [''0'', ''+0'', ''-0''] \<longrightarrow> GetDuration frac rcm key = Inr 0) \<and>
         (Atoi v = Inr i \<longrightarrow> GetInt rcm key = Inr i) \<and>
         (ParseFloat v = Inr f \<longrightarrow> GetFloat ParseFloat rcm key = Inr f) \<and>
         (ParseBool v = Inr b \<longrightarrow> GetBool rcm key = Inr b) \<and>
         (ParseDuration frac v = Inr d \<longrightarrow> GetDuration frac rcm key = Inr d)"
proof -
  have 1: "valid_int_text v \<longrightarrow> GetInt rcm key = Inr (int_of_text v)"
    using assms by (simp add: GetInt_def Atoi_valid)
  have 2: "- (2 ^ 63) \<le> n \<and> n < 2 ^ 63 \<and> v = Itoa n \<longrightarrow> GetInt rcm key = Inr n"
  proof (intro impI, elim conjE)
    assume a: "- (2 ^ 63) \<le> n" "n < 2 ^ 63" and v: "v = Itoa n"
    from Itoa_valid [OF a] have "Atoi (Itoa n) = Inr n"
      using Atoi_valid [of "Itoa n"] by simp
    with assms v show "GetInt rcm key = Inr n" by (simp add: GetInt_def)
  qed
  have 3: "float_text_ok sg ip fp ex \<and> v = float_text sg ip fp ex \<and>
           float_value sg ip fp ex = Some x \<longrightarrow> GetFloat ParseFloat rcm key = Inr x"
    using assms by (auto simp: GetFloat_def ParseFloat_valid)
  have 4: "GetString rcm key = Inr v"
    using assms by (simp add: GetString_def)
  have 5: "v \<in> set [''1'', ''t'', ''T'', ''true'', ''TRUE'', ''True''] \<longrightarrow>
           GetBool rcm key = Inr True"
    using assms by (auto simp: GetBool_def ParseBool_def)
  have 6: "v \<in> set [''0'', ''f'', ''F'', ''false'', ''FALSE'', ''False''] \<longrightarrow>
           GetBool rcm key = Inr False"
    using assms by (auto simp: GetBool_def ParseBool_def)
  have 7: "valid_duration duration_frac dsg gs \<and> v = duration_text dsg gs \<longrightarrow>
           GetDuration duration_frac rcm key = Inr (duration_value duration_frac dsg gs)"
    using assms by (auto simp: GetDuration_def ParseDuration_valid)
  have 8: "v \<in> set [''0'', ''+0'', ''-0''] \<longrightarrow> GetDuration frac rcm key = Inr 0"
    using assms by (auto simp: GetDuration_def ParseDuration_def)
  have 9: "Atoi v = Inr i \<longrightarrow> GetInt rcm key = Inr i"
    using assms by (simp add: GetInt_def)
  have 10: "ParseFloat v = Inr f \<longrightarrow> GetFloat ParseFloat rcm key = Inr f"
    using assms by (simp add: GetFloat_def)
  have 11: "ParseBool v = Inr b \<longrightarrow> GetBool rcm key = Inr b"
    using assms by (simp add: GetBool_def)
  have 12: "ParseDuration frac v = Inr d \<longrightarrow> GetDuration frac rcm key = Inr d"
    using assms by (simp add: GetDuration_def)
  show ?thesis
    by (intro conjI) (rule 1 2 3 4 5 6 7 8 9 10 11 12)+
qed


theorem getters_decode_valid_text_witness:
  "GetInt \<lparr>serviceName = ''svc'',
         config = [''max'' \<mapsto> ''9223372036854775807'', ''min'' \<mapsto> ''-9223372036854775808'',
                   ''pi'' \<mapsto> ''3.14'', ''eps'' \<mapsto> ''-2.5e-3'', ''ttl'' \<mapsto> ''1.5h'',
                   ''lag'' \<mapsto> ''-1h30m0.25s'', ''on'' \<mapsto> ''TRUE''],
         updatedAt = 0\<rparr> ''max'' = Inr 9223372036854775807 \<and>
   GetInt \<lparr>serviceName = ''svc'',
         config = [''max'' \<mapsto> ''9223372036854775807'', ''min'' \<mapsto> ''-9223372036854775808'',
                   ''pi'' \<mapsto> ''3.14'', ''eps'' \<mapsto> ''-2.5e-3'', ''ttl'' \<mapsto> ''1.5h'',
                   ''lag'' \<mapsto> ''-1h30m0.25s'', ''on'' \<mapsto> ''TRUE''],
         updatedAt = 0\<rparr> ''min'' = Inr (- 9223372036854775808) \<and>
   GetFloat ParseFloat \<lparr>serviceName = ''svc'',
         config = [''max'' \<mapsto> ''9223372036854775807'', ''min'' \<mapsto> ''-9223372036854775808'',
                   ''pi'' \<mapsto> ''3.14'', ''eps'' \<mapsto> ''-2.5e-3'', ''ttl'' \<mapsto> ''1.5h'',
                   ''lag'' \<mapsto> ''-1h30m0.25s'', ''on'' \<mapsto> ''TRUE''],
         updatedAt = 0\<rparr> ''pi'' = Inr (Float64 False 7070651414971679 (- 51)) \<and>
   GetFloat ParseFloat \<lparr>serviceName = ''svc'',
         config = [''max'' \<mapsto> ''9223372036854775807'', ''min'' \<mapsto> ''-9223372036854775808'',
                   ''pi'' \<mapsto> ''3.14'', ''eps'' \<mapsto> ''-2.5e-3'', ''ttl'' \<mapsto> ''1.5h'',
                   ''lag'' \<mapsto> ''-1h30m0.25s'', ''on'' \<mapsto> ''TRUE''],
         updatedAt = 0\<rparr> ''eps'' = Inr (Float64 True 5764607523034235 (- 61)) \<and>
   GetDuration duration_frac \<lparr>serviceName = ''svc'',
         config = [''max'' \<mapsto> ''9223372036854775807'', ''min'' \<mapsto> ''-9223372036854775808'',
                   ''pi'' \<mapsto> ''3.14'', ''eps'' \<mapsto> ''-2.5e-3'', ''ttl'' \<mapsto> ''1.5h'',
                   ''lag'' \<mapsto> ''-1h30m0.25s'', ''on'' \<mapsto> ''TRUE''],
         updatedAt = 0\<rparr> ''ttl'' = Inr 5400000000000 \<and>
   GetDuration duration_frac \<lparr>serviceName = ''svc'',
         config = [''max'' \<mapsto> ''9223372036854775807'', ''min'' \<mapsto> ''-9223372036854775808'',
                   ''pi'' \<mapsto> ''3.14'', ''eps'' \<mapsto> ''-2.5e-3'', ''ttl'' \<mapsto> ''1.5h'',
                   ''lag'' \<mapsto> ''-1h30m0.25s'', ''on'' \<mapsto> ''TRUE''],
         updatedAt = 0\<rparr> ''lag'' = Inr (- 5400250000000) \<and>
   GetBool \<lparr>serviceName = ''svc'',
         config = [''max'' \<mapsto> ''9223372036854775807'', ''min'' \<mapsto> ''-9223372036854775808'',
                   ''pi'' \<mapsto> ''3.14'', ''eps'' \<mapsto> ''-2.5e-3'', ''ttl'' \<mapsto> ''1.5h'',
                   ''lag'' \<mapsto> ''-1h30m0.25s'', ''on'' \<mapsto> ''TRUE''],
         updatedAt = 0\<rparr> ''on'' = Inr True \<and>
   GetString \<lparr>serviceName = ''svc'',
         config = [''max'' \<mapsto> ''9223372036854775807'', ''min'' \<mapsto> ''-9223372036854775808'',
                   ''pi'' \<mapsto> ''3.14'', ''eps'' \<mapsto> ''-2.5e-3'', ''ttl'' \<mapsto> ''1.5h'',
                   ''lag'' \<mapsto> ''-1h30m0.25s'', ''on'' \<mapsto> ''TRUE''],
         updatedAt = 0\<rparr> ''on'' = Inr ''TRUE''"
proof -
  let ?rcm = "\<lparr>serviceName = ''svc'',
         config = [''max'' \<mapsto> ''9223372036854775807'', ''min'' \<mapsto> ''-9223372036854775808'',
                   ''pi'' \<mapsto> ''3.14'', ''eps'' \<mapsto> ''-2.5e-3'', ''ttl'' \<mapsto> ''1.5h'',
                   ''lag'' \<mapsto> ''-1h30m0.25s'', ''on'' \<mapsto> ''TRUE''],
         updatedAt = 0\<rparr>"
  note t = getters_decode_valid_text [where frac = duration_frac and i = 0 and f = Float64_NaN
      and b = True and d = 0]
  have hmax: "config ?rcm ''max'' = Some ''9223372036854775807''"
    and hmin: "config ?rcm ''min'' = Some ''-9223372036854775808''"
    and hpi: "config ?rcm ''pi'' = Some ''3.14''"
    and heps: "config ?rcm ''eps'' = Some ''-2.5e-3''"
    and httl: "config ?rcm ''ttl'' = Some ''1.5h''"
    and hlag: "config ?rcm ''lag'' = Some ''-1h30m0.25s''"
    and hon: "config ?rcm ''on'' = Some ''TRUE''"
    by simp_all
  have vmax: "valid_int_text ''9223372036854775807''"
    "int_of_text ''9223372036854775807'' = 9223372036854775807"
    by (simp_all add: valid_text_eval)
  have vmin: "valid_int_text ''-9223372036854775808''"
    "int_of_text ''-9223372036854775808'' = - 9223372036854775808"
    by (simp_all add: valid_text_eval)
  have vpi: "float_text_ok [] ''3'' ''14'' None" "float_text [] ''3'' ''14'' None = ''3.14''"
    "float_value [] ''3'' ''14'' None = Some (Float64 False 7070651414971679 (- 51))"
    by (simp_all add: valid_text_eval round_eval)
  have veps: "float_text_ok ''-'' ''2'' ''5'' (Some (CHR ''e'', ''-'', ''3''))"
    "float_text ''-'' ''2'' ''5'' (Some (CHR ''e'', ''-'', ''3'')) = ''-2.5e-3''"
    "float_value ''-'' ''2'' ''5'' (Some (CHR ''e'', ''-'', ''3''))
       = Some (Float64 True 5764607523034235 (- 61))"
    by (simp_all add: valid_text_eval round_eval)
  have f1: "duration_frac 5 3600000000000 (Suc 0) = 1800000000000"
    by (simp add: duration_frac_def round_eval)
  have f2: "duration_frac 25 1000000000 (Suc (Suc 0)) = 250000000"
    by (simp add: duration_frac_def round_eval)
  have vttl: "valid_duration duration_frac [] [(''1'', ''5'', ''h'')]"
    "duration_text [] [(''1'', ''5'', ''h'')] = ''1.5h''"
    "duration_value duration_frac [] [(''1'', ''5'', ''h'')] = 5400000000000"
    by (simp_all add: valid_text_eval unit_defs f1)
  have vlag: "valid_duration duration_frac ''-''
                [(''1'', [], ''h''), (''30'', [], ''m''), (''0'', ''25'', ''s'')]"
    "duration_text ''-'' [(''1'', [], ''h''), (''30'', [], ''m''), (''0'', ''25'', ''s'')]
       = ''-1h30m0.25s''"
    "duration_value duration_frac ''-''
       [(''1'', [], ''h''), (''30'', [], ''m''), (''0'', ''25'', ''s'')] = - 5400250000000"
    by (simp_all add: valid_text_eval unit_defs f2)
  from t [OF hmax, where n = 0 and sg = "[]" and ip = "[]" and fp = "[]" and ex = None
      and x = Float64_NaN and dsg = "[]" and gs = "[]"] vmax
  have 1: "GetInt ?rcm ''max'' = Inr 9223372036854775807" by simp
  from t [OF hmin, where n = 0 and sg = "[]" and ip = "[]" and fp = "[]" and ex = None
      and x = Float64_NaN and dsg = "[]" and gs = "[]"] vmin
  have 2: "GetInt ?rcm ''min'' = Inr (- 9223372036854775808)" by simp
  from t [OF hpi, where n = 0 and sg = "[]" and ip = "''3''" and fp = "''14''" and ex = None
      and x = "Float64 False 7070651414971679 (- 51)" and dsg = "[]" and gs = "[]"] vpi
  have 3: "GetFloat ParseFloat ?rcm ''pi'' = Inr (Float64 False 7070651414971679 (- 51))"
    by simp
  from t [OF heps, where n = 0 and sg = "''-''" and ip = "''2''" and fp = "''5''"
      and ex = "Some (CHR ''e'', ''-'', ''3'')"
      and x = "Float64 True 5764607523034235 (- 61)" and dsg = "[]" and gs = "[]"] veps
  have 4: "GetFloat ParseFloat ?rcm ''eps'' = Inr (Float64 True 5764607523034235 (- 61))"
    by simp
  from t [OF httl, where n = 0 and sg = "[]" and ip = "[]" and fp = "[]" and ex = None
      and x = Float64_NaN and dsg = "[]" and gs = "[(''1'', ''5'', ''h'')]"] vttl
  have 5: "GetDuration duration_frac ?rcm ''ttl'' = Inr 5400000000000" by simp
  from t [OF hlag, where n = 0 and sg = "[]" and ip = "[]" and fp = "[]" and ex = None
      and x = Float64_NaN and dsg = "''-''"
      and gs = "[(''1'', [], ''h''), (''30'', [], ''m''), (''0'', ''25'', ''s'')]"] vlag
  have 6: "GetDuration duration_frac ?rcm ''lag'' = Inr (- 5400250000000)" by simp
  from t [OF hon, where n = 0 and sg = "[]" and ip = "[]" and fp = "[]" and ex = None
      and x = Float64_NaN and dsg = "[]" and gs = "[]"]
  have 7: "GetBool ?rcm ''on'' = Inr True" and 8: "GetString ?rcm ''on'' = Inr ''TRUE''"
    by simp_all
  from 1 2 3 4 5 6 7 8 show ?thesis by simp
qed

text \<open>
  Claim C5: for a key absent from the snapshot each of the five getters returns the
  not-found error, and each of the five getters with a default returns the default.
\<close>

theorem absent_key_not_found:
  assumes "config rcm key = None"
  shows "GetInt rcm key = Inl (KeyNotFound key) \<and>
         GetFloat parseFloat rcm key = Inl (KeyNotFound key) \<and>
         GetString rcm key = Inl (KeyNotFound key) \<and>
         GetBool rcm key = Inl (KeyNotFound key) \<and>
         GetDuration frac rcm key = Inl (KeyNotFound key) \<and>
         is_NotFoundError (KeyNotFound key) \<and>
         GetIntWithDefault rcm key di = di \<and>
         GetFloatWithDefault parseFloat rcm key df = df \<and>
         GetStringWithDefault rcm key ds = ds \<and>
         GetBoolWithDefault rcm key db = db \<and>
         GetDurationWithDefault frac rcm key dd = dd"
  using assms by (simp add: getter_defs default_defs)

theorem absent_key_not_found_witness:
  "config \<lparr>serviceName = ''svc'', config = Map.empty, updatedAt = 0\<rparr> ''missing'' = None \<and>
   GetString \<lparr>serviceName = ''svc'', config = Map.empty, updatedAt = 0\<rparr> ''missing''
     = Inl (KeyNotFound ''missing'') \<and>
   GetIntWithDefault \<lparr>serviceName = ''svc'', config = Map.empty, updatedAt = 0\<rparr>
     ''missing'' 100 = 100"
proof -
  have h: "config \<lparr>serviceName = ''svc'', config = Map.empty, updatedAt = 0\<rparr> ''missing''
             = None"
    by simp
  show ?thesis
    using h absent_key_not_found [OF h, of "\<lambda>s. Inl ErrSyntax :: num_err + int"
        "\<lambda>f u k. 0" 100 0 "''''" False 0]
    by simp
qed

text \<open>
  Claim C6: for a key present in the snapshot whose stored string is not valid text for
  a type, the getter of that type returns a parse error and the getter with a default
  returns the default. In general a getter with a default returns the getter's value
  when the getter succeeds and the default when it fails; being a plain value, its
  result is never an error.
\<close>

theorem invalid_text_parse_error:
  "(config rcm key = Some v \<and> Atoi v = Inl e1 \<longrightarrow>
      GetInt rcm key = Inl e1 \<and> is_ParseError e1 \<and> GetIntWithDefault rcm key di = di) \<and>
   (config rcm key = Some v \<and> parseFloat v = Inl e2 \<longrightarrow>
      GetFloat parseFloat rcm key = Inl (NumError ''ParseFloat'' v e2) \<and>
      is_ParseError (NumError ''ParseFloat'' v e2) \<and>
      GetFloatWithDefault parseFloat rcm key df = df) \<and>
   (config rcm key = Some v \<and> ParseBool v = Inl e3 \<longrightarrow>
      GetBool rcm key = Inl e3 \<and> is_ParseError e3 \<and> GetBoolWithDefault rcm key db = db) \<and>
   (config rcm key = Some v \<and> ParseDuration frac v = Inl e4 \<longrightarrow>
      GetDuration frac rcm key = Inl e4 \<and> is_ParseError e4 \<and>
      GetDurationWithDefault frac rcm key dd = dd) \<and>
   GetIntWithDefault rcm key di
     = (case GetInt rcm key of Inr x \<Rightarrow> x | Inl e \<Rightarrow> di) \<and>
   GetFloatWithDefault parseFloat rcm key df
     = (case GetFloat parseFloat rcm key of Inr x \<Rightarrow> x | Inl e \<Rightarrow> df) \<and>
   GetStringWithDefault rcm key ds
     = (case GetString rcm key of Inr x \<Rightarrow> x | Inl e \<Rightarrow> ds) \<and>
   GetBoolWithDefault rcm key db
     = (case GetBool rcm key of Inr x \<Rightarrow> x | Inl e \<Rightarrow> db) \<and>
   GetDurationWithDefault frac rcm key dd
     = (case GetDuration frac rcm key of Inr x \<Rightarrow> x | Inl e \<Rightarrow> dd)"
  by (auto simp: getter_defs default_defs split: sum.splits
           dest: Atoi_error ParseBool_error ParseDuration_error)

theorem invalid_text_parse_error_witness:
  "config \<lparr>serviceName = ''svc'', config = [''k'' \<mapsto> ''abc''], updatedAt = 0\<rparr> ''k''
     = Some ''abc'' \<and>
   Atoi ''abc'' = Inl (NumError ''Atoi'' ''abc'' ErrSyntax) \<and>
   ParseBool ''abc'' = Inl (NumError ''ParseBool'' ''abc'' ErrSyntax) \<and>
   ParseDuration (\<lambda>f u k. 0) ''abc'' = Inl (DurationError InvalidDuration ''abc'') \<and>
   GetInt \<lparr>serviceName = ''svc'', config = [''k'' \<mapsto> ''abc''], updatedAt = 0\<rparr> ''k''
     = Inl (NumError ''Atoi'' ''abc'' ErrSyntax) \<and>
   GetIntWithDefault \<lparr>serviceName = ''svc'', config = [''k'' \<mapsto> ''abc''], updatedAt = 0\<rparr>
     ''k'' 100 = 100 \<and>
   GetFloatWithDefault (\<lambda>s. Inl ErrSyntax)
     \<lparr>serviceName = ''svc'', config = [''k'' \<mapsto> ''abc''], updatedAt = 0\<rparr> ''k'' (7::int) = 7 \<and>
   GetBoolWithDefault \<lparr>serviceName = ''svc'', config = [''k'' \<mapsto> ''abc''], updatedAt = 0\<rparr>
     ''k'' True = True \<and>
   GetDurationWithDefault (\<lambda>f u k. 0)
     \<lparr>serviceName = ''svc'', config = [''k'' \<mapsto> ''abc''], updatedAt = 0\<rparr> ''k'' 5 = 5"
proof -
  have h: "config \<lparr>serviceName = ''svc'', config = [''k'' \<mapsto> ''abc''], updatedAt = 0\<rparr> ''k''
             = Some ''abc''"
    by simp
  have p: "Atoi ''abc'' = Inl (NumError ''Atoi'' ''abc'' ErrSyntax)"
    "ParseBool ''abc'' = Inl (NumError ''ParseBool'' ''abc'' ErrSyntax)"
    "ParseDuration (\<lambda>f u k. 0) ''abc'' = Inl (DurationError InvalidDuration ''abc'')"
    by (simp_all add: parser_defs)
  show ?thesis
    using h p invalid_text_parse_error [of
        "\<lparr>serviceName = ''svc'', config = [''k'' \<mapsto> ''abc''], updatedAt = 0\<rparr>" "''k''" "''abc''"
        "NumError ''Atoi'' ''abc'' ErrSyntax" 100
        "\<lambda>s. Inl ErrSyntax" ErrSyntax "7::int"
        "NumError ''ParseBool'' ''abc'' ErrSyntax" True
        "\<lambda>f u k. 0" "DurationError InvalidDuration ''abc''" 5 "''''"]
    by simp
qed

section \<open>Properties of \<^verbatim>\<open>LoadConfig\<close>\<close>

text \<open>
  Claim C1 says that after a successful \<^verbatim>\<open>LoadConfig\<close> the snapshot is exactly the
  mapping decoded from the payload, so that a key absent from the payload is absent
  from the snapshot. The loop of \<^verbatim>\<open>LoadConfig\<close> assigns into the map the store
  already holds and removes nothing: a store that holds the key \<open>stale\<close> and loads a
  payload with the single key \<open>fresh\<close> holds both keys afterwards.
\<close>

theorem LoadConfig_keeps_stale_key_counterexample:
  \<open>fst (LoadConfig (\<lambda>mant exp10. ([], 0)) (redis_holding ''svc'' ''{"fresh":7}'') 1
          \<lparr>serviceName = ''svc'', config = [''stale'' \<mapsto> ''old''], updatedAt = 0\<rparr>) = None \<and>
   Unmarshal ''{"fresh":7}'' = Inr [(''fresh'', VFloat64 False 7 0)] \<and>
   rendered (\<lambda>mant exp10. ([], 0)) [(''fresh'', VFloat64 False 7 0)] ''stale'' = None \<and>
   config (snd (LoadConfig (\<lambda>mant exp10. ([], 0)) (redis_holding ''svc'' ''{"fresh":7}'') 1
          \<lparr>serviceName = ''svc'', config = [''stale'' \<mapsto> ''old''], updatedAt = 0\<rparr>)) ''stale''
     = Some ''old'' \<and>
   config (snd (LoadConfig (\<lambda>mant exp10. ([], 0)) (redis_holding ''svc'' ''{"fresh":7}'') 1
          \<lparr>serviceName = ''svc'', config = [''stale'' \<mapsto> ''old''], updatedAt = 0\<rparr>)) ''fresh''
     = Some ''7''\<close>
  by (simp add: LoadConfig_def redis_holding_def Unmarshal_fresh rendered_def format_7)

text \<open>
  Claim C1, amended: after a successful \<^verbatim>\<open>LoadConfig\<close> the snapshot is the previous
  snapshot overridden by the mapping decoded from the payload. Every key of the payload
  maps to the rendering of its value, and every key absent from the payload keeps the
  entry it had before the call.
\<close>

theorem LoadConfig_merges:
  assumes "LoadConfig sh r now rcm = (None, rcm')"
  shows "\<exists>raw m. r (serviceName rcm) = Inr raw \<and> Unmarshal raw = Inr m \<and>
           config rcm' = config rcm ++ rendered sh m \<and>
           (\<forall>k. config rcm' k =
              (case map_of m k of
                 Some v \<Rightarrow> Some (Sprintf_v sh v)
               | None \<Rightarrow> config rcm k))"
proof -
  from assms obtain raw m where raw: "r (serviceName rcm) = Inr raw"
    and m: "Unmarshal raw = Inr m"
    and rcm': "rcm' = rcm\<lparr>config := config rcm ++ rendered sh m, updatedAt := now\<rparr>"
    by (rule LoadConfig_success)
  from rcm' have c: "config rcm' = config rcm ++ rendered sh m" by simp
  have "\<forall>k. config rcm' k =
          (case map_of m k of Some v \<Rightarrow> Some (Sprintf_v sh v) | None \<Rightarrow> config rcm k)"
    by (simp add: c map_add_def rendered_lookup split: option.splits)
  with raw m c show ?thesis by blast
qed

theorem LoadConfig_merges_witness:
  \<open>LoadConfig (\<lambda>mant exp10. ([], 0)) (redis_holding ''svc'' ''{"fresh":7}'') 1
      \<lparr>serviceName = ''svc'', config = [''stale'' \<mapsto> ''old''], updatedAt = 0\<rparr>
     = (None, \<lparr>serviceName = ''svc'', config = [''stale'' \<mapsto> ''old'', ''fresh'' \<mapsto> ''7''],
               updatedAt = 1\<rparr>) \<and>
   (\<exists>raw m. redis_holding ''svc'' ''{"fresh":7}'' ''svc'' = Inr raw \<and> Unmarshal raw = Inr m \<and>
      [''stale'' \<mapsto> ''old'', ''fresh'' \<mapsto> ''7'']
        = [''stale'' \<mapsto> ''old''] ++ rendered (\<lambda>mant exp10. ([], 0)) m)\<close>
proof -
  have h: \<open>LoadConfig (\<lambda>mant exp10. ([], 0)) (redis_holding ''svc'' ''{"fresh":7}'') 1
      \<lparr>serviceName = ''svc'', config = [''stale'' \<mapsto> ''old''], updatedAt = 0\<rparr>
     = (None, \<lparr>serviceName = ''svc'', config = [''stale'' \<mapsto> ''old'', ''fresh'' \<mapsto> ''7''],
               updatedAt = 1\<rparr>)\<close>
    by (simp add: LoadConfig_def redis_holding_def Unmarshal_fresh format_7)
  from LoadConfig_merges [OF h] h show ?thesis by simp blast
qed

text \<open>
  Claim C3: when \<^verbatim>\<open>LoadConfig\<close> fails, because the remote answers with an error or
  because the payload does not decode, the store it returns is the store it was given:
  the snapshot and the time of the last load are unchanged.
\<close>

theorem LoadConfig_failure_keeps_store:
  "(r (serviceName rcm) = Inl re \<longrightarrow>
      LoadConfig sh r now rcm = (Some (FailedToGetConfig re), rcm) \<and>
      is_RetrievalError (FailedToGetConfig re)) \<and>
   (r (serviceName rcm) = Inr raw \<and> Unmarshal raw = Inl je \<longrightarrow>
      LoadConfig sh r now rcm = (Some (FailedToUnmarshalConfig je), rcm) \<and>
      is_DecodeError (FailedToUnmarshalConfig je)) \<and>
   (LoadConfig sh r now rcm = (Some err, rcm') \<longrightarrow>
      rcm' = rcm \<and> config rcm' = config rcm \<and> updatedAt rcm' = updatedAt rcm \<and>
      (is_RetrievalError err \<or> is_DecodeError err))"
  by (auto simp: LoadConfig_def split: sum.splits)

theorem LoadConfig_failure_keeps_store_witness:
  "redis_closed ''svc'' = Inl (RedisFailure ''connection refused'') \<and>
   LoadConfig (\<lambda>mant exp10. ([], 0)) redis_closed 7
       \<lparr>serviceName = ''svc'', config = [''int_key'' \<mapsto> ''42''], updatedAt = 3\<rparr>
     = (Some (FailedToGetConfig (RedisFailure ''connection refused'')),
        \<lparr>serviceName = ''svc'', config = [''int_key'' \<mapsto> ''42''], updatedAt = 3\<rparr>) \<and>
   redis_holding ''svc'' ''invalid json'' ''svc'' = Inr ''invalid json'' \<and>
   Unmarshal ''invalid json'' = Inl SyntaxError \<and>
   LoadConfig (\<lambda>mant exp10. ([], 0)) (redis_holding ''svc'' ''invalid json'') 7
       \<lparr>serviceName = ''svc'', config = [''int_key'' \<mapsto> ''42''], updatedAt = 3\<rparr>
     = (Some (FailedToUnmarshalConfig SyntaxError),
        \<lparr>serviceName = ''svc'', config = [''int_key'' \<mapsto> ''42''], updatedAt = 3\<rparr>)"
proof -
  have a: "redis_closed (serviceName
             \<lparr>serviceName = ''svc'', config = [''int_key'' \<mapsto> ''42''], updatedAt = 3\<rparr>)
           = Inl (RedisFailure ''connection refused'')"
    by (simp add: redis_closed_def)
  have b: "redis_holding ''svc'' ''invalid json'' (serviceName
             \<lparr>serviceName = ''svc'', config = [''int_key'' \<mapsto> ''42''], updatedAt = 3\<rparr>)
           = Inr ''invalid json''"
    by (simp add: redis_holding_def)
  from a have 1: "LoadConfig (\<lambda>mant exp10. ([], 0)) redis_closed 7
       \<lparr>serviceName = ''svc'', config = [''int_key'' \<mapsto> ''42''], updatedAt = 3\<rparr>
     = (Some (FailedToGetConfig (RedisFailure ''connection refused'')),
        \<lparr>serviceName = ''svc'', config = [''int_key'' \<mapsto> ''42''], updatedAt = 3\<rparr>)"
    using LoadConfig_failure_keeps_store [of redis_closed
        "\<lparr>serviceName = ''svc'', config = [''int_key'' \<mapsto> ''42''], updatedAt = 3\<rparr>"
        "RedisFailure ''connection refused''" "\<lambda>mant exp10. ([], 0)" 7]
    by blast
  from b Unmarshal_invalid_json have 2:
    "LoadConfig (\<lambda>mant exp10. ([], 0)) (redis_holding ''svc'' ''invalid json'') 7
       \<lparr>serviceName = ''svc'', config = [''int_key'' \<mapsto> ''42''], updatedAt = 3\<rparr>
     = (Some (FailedToUnmarshalConfig SyntaxError),
        \<lparr>serviceName = ''svc'', config = [''int_key'' \<mapsto> ''42''], updatedAt = 3\<rparr>)"
    using LoadConfig_failure_keeps_store [of "redis_holding ''svc'' ''invalid json''"
        "\<lparr>serviceName = ''svc'', config = [''int_key'' \<mapsto> ''42''], updatedAt = 3\<rparr>"
        _ "\<lambda>mant exp10. ([], 0)" 7 "''invalid json''" SyntaxError]
    by blast
  from a b 1 2 Unmarshal_invalid_json show ?thesis by simp
qed

text \<open>
  Claim C7: a second \<^verbatim>\<open>LoadConfig\<close> against an unchanged remote succeeds when the
  first one did and leaves the snapshot as the first call left it; of the store only the
  time of the last load changes. (When the first call fails, so does the second, and
  the store does not change at all.)
\<close>

theorem LoadConfig_idempotent:
  "(LoadConfig sh r t1 rcm = (None, rcm1) \<longrightarrow>
      LoadConfig sh r t2 rcm1 = (None, rcm1\<lparr>updatedAt := t2\<rparr>) \<and>
      config (snd (LoadConfig sh r t2 rcm1)) = config rcm1 \<and>
      serviceName (snd (LoadConfig sh r t2 rcm1)) = serviceName rcm1 \<and>
      updatedAt (snd (LoadConfig sh r t2 rcm1)) = t2) \<and>
   (LoadConfig sh r t1 rcm = (Some err, rcm1) \<longrightarrow>
      LoadConfig sh r t2 rcm1 = (Some err, rcm1))"
proof -
  have ok: "LoadConfig sh r t2 rcm1 = (None, rcm1\<lparr>updatedAt := t2\<rparr>)"
    if h: "LoadConfig sh r t1 rcm = (None, rcm1)"
  proof -
    from h obtain raw m where raw: "r (serviceName rcm) = Inr raw"
      and m: "Unmarshal raw = Inr m"
      and rcm1: "rcm1 = rcm\<lparr>config := config rcm ++ rendered sh m, updatedAt := t1\<rparr>"
      by (rule LoadConfig_success)
    from m have "distinct (map fst m)" by (rule Unmarshal_distinct)
    then have "store_all sh (config rcm1) m = config rcm1 ++ rendered sh m"
      by (rule store_all_map_add)
    also have "\<dots> = config rcm1"
      by (simp add: rcm1 map_add_def fun_eq_iff split: option.splits)
    finally have "store_all sh (config rcm1) m = config rcm1" .
    moreover from rcm1 raw have "r (serviceName rcm1) = Inr raw" by simp
    ultimately show ?thesis
      using m by (simp add: LoadConfig_def)
  qed
  have bad: "LoadConfig sh r t2 rcm1 = (Some err, rcm1)"
    if "LoadConfig sh r t1 rcm = (Some err, rcm1)"
    using that by (auto simp: LoadConfig_def split: sum.splits)
  from ok bad show ?thesis by simp
qed

theorem LoadConfig_idempotent_witness:
  \<open>LoadConfig (\<lambda>mant exp10. ([], 0)) (redis_holding ''svc'' ''{"fresh":7}'') 1
      \<lparr>serviceName = ''svc'', config = [''stale'' \<mapsto> ''old''], updatedAt = 0\<rparr>
     = (None, \<lparr>serviceName = ''svc'', config = [''stale'' \<mapsto> ''old'', ''fresh'' \<mapsto> ''7''],
               updatedAt = 1\<rparr>) \<and>
   LoadConfig (\<lambda>mant exp10. ([], 0)) (redis_holding ''svc'' ''{"fresh":7}'') 2
      \<lparr>serviceName = ''svc'', config = [''stale'' \<mapsto> ''old'', ''fresh'' \<mapsto> ''7''],
        updatedAt = 1\<rparr>
     = (None, \<lparr>serviceName = ''svc'', config = [''stale'' \<mapsto> ''old'', ''fresh'' \<mapsto> ''7''],
               updatedAt = 2\<rparr>)\<close>
proof -
  have h: \<open>LoadConfig (\<lambda>mant exp10. ([], 0)) (redis_holding ''svc'' ''{"fresh":7}'') 1
      \<lparr>serviceName = ''svc'', config = [''stale'' \<mapsto> ''old''], updatedAt = 0\<rparr>
     = (None, \<lparr>serviceName = ''svc'', config = [''stale'' \<mapsto> ''old'', ''fresh'' \<mapsto> ''7''],
               updatedAt = 1\<rparr>)\<close>
    by (simp add: LoadConfig_def redis_holding_def Unmarshal_fresh format_7)
  from LoadConfig_idempotent [of "\<lambda>mant exp10. ([], 0)" _ 1 _ _ 2] h show ?thesis by simp
qed

text \<open>
  Claim C8: a store made by \<^verbatim>\<open>NewRedisConfigManager\<close> for a service whose key holds
  the test configuration loads it without error; then \<^verbatim>\<open>GetInt("int_key")\<close> is 42,
  \<^verbatim>\<open>GetDuration("duration_key")\<close> is five seconds, and \<^verbatim>\<open>GetString("missing")\<close>
  fails with the not-found error.
\<close>

theorem end_to_end:
  assumes "NewRedisConfigManager None name = Some rcm"
    and "redis_get name = Inr test_config_json"
  shows "fst (LoadConfig sh redis_get now rcm) = None \<and>
         GetInt (snd (LoadConfig sh redis_get now rcm)) ''int_key'' = Inr 42 \<and>
         GetDuration frac (snd (LoadConfig sh redis_get now rcm)) ''duration_key''
           = Inr (5 * int Second) \<and>
         GetString (snd (LoadConfig sh redis_get now rcm)) ''missing''
           = Inl (KeyNotFound ''missing'') \<and>
         is_NotFoundError (KeyNotFound ''missing'')"
proof -
  from assms(1) have rcm: "rcm = \<lparr>serviceName = name, config = Map.empty, updatedAt = 0\<rparr>"
    by (simp add: NewRedisConfigManager_def)
  with assms(2) have r: "redis_get (serviceName rcm) = Inr test_config_json" by simp
  have l: "fst (LoadConfig sh redis_get now rcm) = None"
    by (simp add: LoadConfig_def r Unmarshal_test_config)
  have c: "config (snd (LoadConfig sh redis_get now rcm))
             = store_all sh Map.empty
                 [(''bool_key'', VBool True), (''duration_key'', VString ''5s''),
                  (''float_key'', VFloat64 False 314 (- 2)),
                  (''int_key'', VFloat64 False 42 0),
                  (''string_key'', VString ''test_value'')]"
    by (simp add: LoadConfig_def r Unmarshal_test_config) (simp add: rcm)
  have i: "GetInt (snd (LoadConfig sh redis_get now rcm)) ''int_key'' = Inr 42"
    unfolding GetInt_def c by (simp add: format_42 parser_defs)
  have d: "GetDuration frac (snd (LoadConfig sh redis_get now rcm)) ''duration_key''
             = Inr (5 * int Second)"
    unfolding GetDuration_def c by (simp add: parser_defs)
  have s: "GetString (snd (LoadConfig sh redis_get now rcm)) ''missing''
             = Inl (KeyNotFound ''missing'')"
    unfolding GetString_def c by simp
  from l i d s show ?thesis by simp
qed

theorem end_to_end_witness:
  "NewRedisConfigManager None ''svc''
     = Some \<lparr>serviceName = ''svc'', config = Map.empty, updatedAt = 0\<rparr> \<and>
   redis_holding ''svc'' test_config_json ''svc'' = Inr test_config_json \<and>
   GetInt (snd (LoadConfig (\<lambda>mant exp10. ([], 0)) (redis_holding ''svc'' test_config_json) 1
                 \<lparr>serviceName = ''svc'', config = Map.empty, updatedAt = 0\<rparr>)) ''int_key''
     = Inr 42 \<and>
   GetDuration (\<lambda>f u k. 0)
       (snd (LoadConfig (\<lambda>mant exp10. ([], 0)) (redis_holding ''svc'' test_config_json) 1
                 \<lparr>serviceName = ''svc'', config = Map.empty, updatedAt = 0\<rparr>)) ''duration_key''
     = Inr 5000000000 \<and>
   GetString (snd (LoadConfig (\<lambda>mant exp10. ([], 0)) (redis_holding ''svc'' test_config_json) 1
                 \<lparr>serviceName = ''svc'', config = Map.empty, updatedAt = 0\<rparr>)) ''missing''
     = Inl (KeyNotFound ''missing'')"
proof -
  have n: "NewRedisConfigManager None ''svc''
     = Some \<lparr>serviceName = ''svc'', config = Map.empty, updatedAt = 0\<rparr>"
    by (simp add: NewRedisConfigManager_def)
  have r: "redis_holding ''svc'' test_config_json ''svc'' = Inr test_config_json"
    by (simp add: redis_holding_def)
  have s: "5 * int Second = 5000000000"
    by (simp add: Second_def Millisecond_def Microsecond_def Nanosecond_def)
  from end_to_end [where name = "''svc''" and redis_get = "redis_holding ''svc'' test_config_json"
      and sh = "\<lambda>mant exp10. ([], 0)" and now = 1 and frac = "\<lambda>f u k. 0", OF n r] n r s
  show ?thesis by simp
qed

text \<open>
  Claim C10: \<^verbatim>\<open>LoadConfig\<close> decodes every number of the payload as a
  \<^verbatim>\<open>float64\<close> and stores its rendering by \<^verbatim>\<open>%v\<close>. The payload
  \<^verbatim>\<open>{"big":10000000}\<close> holds a valid integer, is stored as \<open>1e+07\<close>, and
  \<^verbatim>\<open>GetInt\<close> on its key fails with a parse error. In general \<^verbatim>\<open>GetInt\<close> on a key
  that the payload gave a number succeeds only when the stored rendering is a plain
  decimal string. For a number that is an integer below \<open>2^53\<close> this is the case
  exactly when it is below \<open>10^6\<close>: such an integer is read back as it was written, and
  one of at least \<open>10^6\<close> is stored with an exponent and cannot be read.
\<close>

theorem GetInt_after_LoadConfig:
  \<open>(r (serviceName rcm) = Inr ''{"big":10000000}'' \<longrightarrow>
      fst (LoadConfig sh r now rcm) = None \<and>
      config (snd (LoadConfig sh r now rcm)) ''big'' = Some ''1e+07'' \<and>
      GetInt (snd (LoadConfig sh r now rcm)) ''big'' = Inl (NumError ''Atoi'' ''1e+07'' ErrSyntax) \<and>
      is_ParseError (NumError ''Atoi'' ''1e+07'' ErrSyntax)) \<and>
   (r (serviceName rcm) = Inr raw \<and> Unmarshal raw = Inr m \<and>
    map_of m k = Some (VFloat64 neg mant exp10) \<longrightarrow>
      fst (LoadConfig sh r now rcm) = None \<and>
      config (snd (LoadConfig sh r now rcm)) k = Some (format_float64 sh neg mant exp10) \<and>
      (GetInt (snd (LoadConfig sh r now rcm)) k = Inr n \<longrightarrow>
         plain_decimal (format_float64 sh neg mant exp10)) \<and>
      (exact_int mant exp10 = Some i \<and> i < 10 ^ 6 \<longrightarrow>
         GetInt (snd (LoadConfig sh r now rcm)) k = Inr (if neg then - int i else int i)) \<and>
      (exact_int mant exp10 = Some i \<and> 10 ^ 6 \<le> i \<and> i < 2 ^ 53 \<longrightarrow>
         (\<exists>err. GetInt (snd (LoadConfig sh r now rcm)) k = Inl err \<and> is_ParseError err)))\<close>
proof -
  have general: "fst (LoadConfig sh r now rcm) = None \<and>
      config (snd (LoadConfig sh r now rcm)) k' = Some (format_float64 sh neg' mant' exp10') \<and>
      GetInt (snd (LoadConfig sh r now rcm)) k' = Atoi (format_float64 sh neg' mant' exp10')"
    if raw: "r (serviceName rcm) = Inr raw'" and m: "Unmarshal raw' = Inr m'"
      and k: "map_of m' k' = Some (VFloat64 neg' mant' exp10')"
    for raw' m' k' neg' mant' exp10'
  proof -
    from raw m have l: "LoadConfig sh r now rcm
        = (None, rcm\<lparr>config := config rcm ++ rendered sh m', updatedAt := now\<rparr>)"
      by (rule LoadConfig_decoded)
    from k have "rendered sh m' k' = Some (format_float64 sh neg' mant' exp10')"
      by (simp add: rendered_lookup)
    then have c: "config (snd (LoadConfig sh r now rcm)) k'
                    = Some (format_float64 sh neg' mant' exp10')"
      by (simp add: l map_add_def)
    then have "GetInt (snd (LoadConfig sh r now rcm)) k' = Atoi (format_float64 sh neg' mant' exp10')"
      by (simp add: GetInt_def)
    with l c show ?thesis by simp
  qed
  have big: \<open>fst (LoadConfig sh r now rcm) = None \<and>
      config (snd (LoadConfig sh r now rcm)) ''big'' = Some ''1e+07'' \<and>
      GetInt (snd (LoadConfig sh r now rcm)) ''big'' = Inl (NumError ''Atoi'' ''1e+07'' ErrSyntax) \<and>
      is_ParseError (NumError ''Atoi'' ''1e+07'' ErrSyntax)\<close>
    if \<open>r (serviceName rcm) = Inr ''{"big":10000000}''\<close>
    using general [OF that Unmarshal_big, of "''big''" False 10000000 0]
    by (simp add: format_big) (simp add: parser_defs)
  have rest: "fst (LoadConfig sh r now rcm) = None \<and>
      config (snd (LoadConfig sh r now rcm)) k = Some (format_float64 sh neg mant exp10) \<and>
      (GetInt (snd (LoadConfig sh r now rcm)) k = Inr n \<longrightarrow>
         plain_decimal (format_float64 sh neg mant exp10)) \<and>
      (exact_int mant exp10 = Some i \<and> i < 10 ^ 6 \<longrightarrow>
         GetInt (snd (LoadConfig sh r now rcm)) k = Inr (if neg then - int i else int i)) \<and>
      (exact_int mant exp10 = Some i \<and> 10 ^ 6 \<le> i \<and> i < 2 ^ 53 \<longrightarrow>
         (\<exists>err. GetInt (snd (LoadConfig sh r now rcm)) k = Inl err \<and> is_ParseError err))"
    if raw: "r (serviceName rcm) = Inr raw" and m: "Unmarshal raw = Inr m"
      and k: "map_of m k = Some (VFloat64 neg mant exp10)"
  proof -
    note g = general [OF raw m k]
    then have a: "GetInt (snd (LoadConfig sh r now rcm)) k = Atoi (format_float64 sh neg mant exp10)"
      by simp
    have p: "plain_decimal (format_float64 sh neg mant exp10)"
      if "GetInt (snd (LoadConfig sh r now rcm)) k = Inr n"
      using that a by (auto dest: Atoi_plain)
    have s: "GetInt (snd (LoadConfig sh r now rcm)) k = Inr (if neg then - int i else int i)"
      if "exact_int mant exp10 = Some i" and "i < 10 ^ 6"
      using that a by (simp add: small_integer_rendering Atoi_small_integer)
    have b: "\<exists>err. GetInt (snd (LoadConfig sh r now rcm)) k = Inl err \<and> is_ParseError err"
      if e: "exact_int mant exp10 = Some i" and lo: "10 ^ 6 \<le> i" and hi: "i < 2 ^ 53"
    proof (cases "Atoi (format_float64 sh neg mant exp10)")
      case (Inl err)
      with a show ?thesis by (auto dest: Atoi_error)
    next
      case (Inr x)
      then have "plain_decimal (format_float64 sh neg mant exp10)" by (rule Atoi_plain)
      with large_integer_not_plain [OF e lo hi] show ?thesis by simp
    qed
    from g p s b show ?thesis by blast
  qed
  from big rest show ?thesis by blast
qed

theorem GetInt_after_LoadConfig_witness:
  \<open>redis_holding ''svc'' ''{"big":10000000}'' ''svc'' = Inr ''{"big":10000000}'' \<and>
   Unmarshal ''{"big":10000000}'' = Inr [(''big'', VFloat64 False 10000000 0)] \<and>
   exact_int 10000000 0 = Some 10000000 \<and>
   config (snd (LoadConfig (\<lambda>mant exp10. ([], 0)) (redis_holding ''svc'' ''{"big":10000000}'') 1
                 \<lparr>serviceName = ''svc'', config = Map.empty, updatedAt = 0\<rparr>)) ''big''
     = Some ''1e+07'' \<and>
   GetInt (snd (LoadConfig (\<lambda>mant exp10. ([], 0)) (redis_holding ''svc'' ''{"big":10000000}'') 1
                 \<lparr>serviceName = ''svc'', config = Map.empty, updatedAt = 0\<rparr>)) ''big''
     = Inl (NumError ''Atoi'' ''1e+07'' ErrSyntax) \<and>
   redis_holding ''svc'' ''{"fresh":7}'' ''svc'' = Inr ''{"fresh":7}'' \<and>
   Unmarshal ''{"fresh":7}'' = Inr [(''fresh'', VFloat64 False 7 0)] \<and>
   exact_int 7 0 = Some 7 \<and>
   GetInt (snd (LoadConfig (\<lambda>mant exp10. ([], 0)) (redis_holding ''svc'' ''{"fresh":7}'') 1
                 \<lparr>serviceName = ''svc'', config = Map.empty, updatedAt = 0\<rparr>)) ''fresh''
     = Inr 7\<close>
proof -
  have r1: \<open>redis_holding ''svc'' ''{"big":10000000}''
             (serviceName \<lparr>serviceName = ''svc'', config = Map.empty, updatedAt = 0\<rparr>)
           = Inr ''{"big":10000000}''\<close>
    by (simp add: redis_holding_def)
  have r2: \<open>redis_holding ''svc'' ''{"fresh":7}''
             (serviceName \<lparr>serviceName = ''svc'', config = Map.empty, updatedAt = 0\<rparr>)
           = Inr ''{"fresh":7}''\<close>
    by (simp add: redis_holding_def)
  have e: "exact_int 10000000 0 = Some 10000000" "exact_int 7 0 = Some 7"
    by (simp_all add: exact_int_def)
  note t1 = GetInt_after_LoadConfig [where r = \<open>redis_holding ''svc'' ''{"big":10000000}''\<close>
      and rcm = "\<lparr>serviceName = ''svc'', config = Map.empty, updatedAt = 0\<rparr>"
      and sh = "\<lambda>mant exp10. ([], 0)" and now = 1]
  note t2 = GetInt_after_LoadConfig [where r = \<open>redis_holding ''svc'' ''{"fresh":7}''\<close>
      and rcm = "\<lparr>serviceName = ''svc'', config = Map.empty, updatedAt = 0\<rparr>"
      and sh = "\<lambda>mant exp10. ([], 0)" and now = 1
      and raw = \<open>''{"fresh":7}''\<close> and m = "[(''fresh'', VFloat64 False 7 0)]"
      and k = "''fresh''" and neg = False and mant = 7 and ?exp10.0 = 0 and i = 7]
  from t1 r1 have b: \<open>config (snd (LoadConfig (\<lambda>mant exp10. ([], 0))
                 (redis_holding ''svc'' ''{"big":10000000}'') 1
                 \<lparr>serviceName = ''svc'', config = Map.empty, updatedAt = 0\<rparr>)) ''big''
     = Some ''1e+07'' \<and>
   GetInt (snd (LoadConfig (\<lambda>mant exp10. ([], 0)) (redis_holding ''svc'' ''{"big":10000000}'') 1
                 \<lparr>serviceName = ''svc'', config = Map.empty, updatedAt = 0\<rparr>)) ''big''
     = Inl (NumError ''Atoi'' ''1e+07'' ErrSyntax)\<close>
    by blast
  from t2 r2 Unmarshal_fresh e(2) have s:
    \<open>GetInt (snd (LoadConfig (\<lambda>mant exp10. ([], 0)) (redis_holding ''svc'' ''{"fresh":7}'') 1
                 \<lparr>serviceName = ''svc'', config = Map.empty, updatedAt = 0\<rparr>)) ''fresh''
     = Inr 7\<close>
    by simp
  from r1 r2 e b s Unmarshal_big Unmarshal_fresh show ?thesis by simp
qed

end
